theory Spec2Isabelle
  imports Main "HOL-Library.AList"
begin

section \<open>JavaScript values, the object store and caller-supplied functions\<close>

text \<open>
  The registry of \<^verbatim>\<open>src/operation.js\<close> is a JavaScript object \<^verbatim>\<open>validator\<close> holding three
  dictionaries. Values are JavaScript values; objects and arrays live in a store and are
  referred to by address, so that two references to one array (the result cache and the
  value handed to a listener, the listener array of a field and the one captured by an
  unsubscribe closure) are one object. A function value is its identity; strict equality
  \<^verbatim>\<open>===\<close> is equality of \<^typ>\<open>nat\<close> identities, and of addresses for objects.

  What the model leaves out: numbers are integers; functions and arrays carry no named
  properties (reading one yields undefined, writing one is lost); integer-like keys of a
  dictionary are not moved to the front; a write under the key \<^verbatim>\<open>__proto__\<close> is an ordinary
  write; the result cache is read by its own keys only; an object that no variable
  outlives (the \<^verbatim>\<open>Set\<close> and the arrays built inside \<^verbatim>\<open>getIdsFromGroups\<close>, the array of
  \<^verbatim>\<open>checkGroups([group])\<close>, the default \<^verbatim>\<open>[]\<close> of \<^verbatim>\<open>validateOne\<close>) is not put in the store.
\<close>

type_synonym addr = nat

datatype val = Undefined | Null | Bool bool | Num int | Str string | Fn nat | Ref addr

datatype obj = Arr "val list" | Obj "(string \<times> val) list"

datatype error = TypeError string | Thrown val

text \<open>
  Console output. A warning carries the values interpolated into the message; the two info
  payloads are the structures handed to \<^verbatim>\<open>JSON.stringify\<close>: per field its id, name, chain
  length and (when the property exists) the number of listeners; per group the ids whose
  flag is true.
\<close>

datatype diagnostic =
    NotRegistered string
  | NotInGroup string string
  | HaveRegistered string

type_synonym validationInfo = "(string \<times> val \<times> nat \<times> nat option) list"
type_synonym groupInfo = "(string \<times> string list) list"

text \<open>
  The trace records the console output and every call of a caller's function:
  \<open>Called f args seen outcome\<close>, where \<open>seen\<close> gives, for each argument that is a
  reference, the object it pointed to when the call was made, and the outcome is the value
  returned (\<open>Inr\<close>) or thrown (\<open>Inl\<close>).
\<close>

datatype event =
    Warn diagnostic
  | InfoValidation validationInfo
  | InfoGroup groupInfo
  | InfoAll validationInfo groupInfo
  | Called nat "val list" "obj option list" "val + val"

text \<open>
  What the caller supplies is a parameter of the model.

  \<open>call env f args h w\<close> runs the caller's function \<open>f\<close> (a getter, a validation function,
  a listener, a callback) on the arguments in the store \<open>h\<close> and the caller's own state
  \<open>w\<close>. It returns normally (\<open>Inr\<close>) or throws (\<open>Inl\<close>), and it gives back the store and
  the caller's state as the function left them: a caller function can read and write every
  object and array of the store, among them the field records, the chain arrays and the
  listener arrays, and so it can do what calling an unsubscribe closure, \<^verbatim>\<open>subscribe\<close> on a
  field that has listeners or \<^verbatim>\<open>clearListeners\<close> does. It cannot change the three
  dictionaries themselves (register or deregister a field, change a group, write the
  result cache).

  \<open>inherited env k\<close> is what the prototype of the caller's dictionaries
  \<^verbatim>\<open>validationStorage\<close> and \<^verbatim>\<open>groupStroage\<close> holds under the name \<open>k\<close>: the identity of a
  function of the runtime, or nothing. \<^verbatim>\<open>operation.js\<close> does not make these dictionaries;
  for dictionaries written \<^verbatim>\<open>{}\<close> the prototype is \<^verbatim>\<open>Object.prototype\<close>.

  \<open>toStr\<close> is JavaScript's string conversion of numbers, functions and objects (an
  object's own \<^verbatim>\<open>toString\<close>), used where a non-string is a property key.
\<close>

record 'w env =
  call :: "nat \<Rightarrow> val list \<Rightarrow> obj list \<Rightarrow> 'w \<Rightarrow> (val + val) \<times> obj list \<times> 'w"
  inherited :: "string \<Rightarrow> nat option"
  toStr :: "val \<Rightarrow> string"

text \<open>
  The state: the three dictionaries of \<^verbatim>\<open>validator\<close> (own properties in insertion order),
  the store, the caller's state and the trace. \<open>validationStorage\<close> maps an id to the
  address of its field record \<^verbatim>\<open>{name, validationChain, getter}\<close> (later also
  \<^verbatim>\<open>listeners\<close>); \<open>groupStroage\<close> (the source's spelling) maps a group name to its map from
  ids to flags.
\<close>

record 'w state =
  validationStorage :: "(string \<times> addr) list"
  groupStroage :: "(string \<times> (string \<times> bool) list) list"
  resultCache :: "(string \<times> val) list"
  heap :: "obj list"
  world :: 'w
  trace :: "event list"

definition deref :: "obj list \<Rightarrow> addr \<Rightarrow> obj option" where
  "deref h a = (if a < length h then Some (h ! a) else None)"

definition alloc :: "obj \<Rightarrow> 'w state \<Rightarrow> addr \<times> 'w state" where
  "alloc ob s = (length (heap s), s\<lparr>heap := heap s @ [ob]\<rparr>)"

definition getProp :: "obj list \<Rightarrow> val \<Rightarrow> string \<Rightarrow> val" where
  "getProp h v k =
     (case v of
        Ref a \<Rightarrow>
          (case deref h a of
             Some (Obj ps) \<Rightarrow> (case map_of ps k of Some x \<Rightarrow> x | None \<Rightarrow> Undefined)
           | _ \<Rightarrow> Undefined)
      | _ \<Rightarrow> Undefined)"

definition setProp :: "addr \<Rightarrow> string \<Rightarrow> val \<Rightarrow> 'w state \<Rightarrow> 'w state" where
  "setProp a k v s =
     (case deref (heap s) a of
        Some (Obj ps) \<Rightarrow> s\<lparr>heap := (heap s)[a := Obj (AList.update k v ps)]\<rparr>
      | _ \<Rightarrow> s)"

text \<open>The assignment \<^verbatim>\<open>target.k = v\<close>, on whatever value \<open>target\<close> is.\<close>

definition assignProp :: "val \<Rightarrow> string \<Rightarrow> val \<Rightarrow> 'w state \<Rightarrow> 'w state" where
  "assignProp target k v s = (case target of Ref a \<Rightarrow> setProp a k v s | _ \<Rightarrow> s)"

definition arrayElems :: "obj list \<Rightarrow> val \<Rightarrow> val list option" where
  "arrayElems h v =
     (case v of
        Ref a \<Rightarrow> (case deref h a of Some (Arr xs) \<Rightarrow> Some xs | _ \<Rightarrow> None)
      | _ \<Rightarrow> None)"

definition push :: "addr \<Rightarrow> val \<Rightarrow> 'w state \<Rightarrow> 'w state" where
  "push a v s =
     (case deref (heap s) a of
        Some (Arr xs) \<Rightarrow> s\<lparr>heap := (heap s)[a := Arr (xs @ [v])]\<rparr>
      | _ \<Rightarrow> s)"

text \<open>The elements \<^verbatim>\<open>_.each\<close> visits: of an array its entries, of a string its characters,
  of an object its property values, of anything else nothing.\<close>

definition eachElems :: "obj list \<Rightarrow> val \<Rightarrow> val list" where
  "eachElems h v =
     (case v of
        Str cs \<Rightarrow> map (\<lambda>c. Str [c]) cs
      | Ref a \<Rightarrow>
          (case deref h a of
             Some (Arr xs) \<Rightarrow> xs
           | Some (Obj ps) \<Rightarrow> map snd ps
           | None \<Rightarrow> [])
      | _ \<Rightarrow> [])"

text \<open>
  Where the function given to \<^verbatim>\<open>_.each\<close> calls a caller's function, the collection can
  change while it is visited. Lodash's loop over an array reads the length once, before
  the first visit, and reads entry \<open>i\<close> from the array as it is when visit \<open>i\<close> begins: an
  entry that is no longer there reads as undefined. \<open>eachLength\<close> is the number of visits
  and \<open>eachElem\<close> the value visited. (Of the collections that are not arrays, a string
  cannot change; the entries of an object are read by position.)
\<close>

definition eachLength :: "obj list \<Rightarrow> val \<Rightarrow> nat" where
  "eachLength h v = length (eachElems h v)"

definition eachElem :: "obj list \<Rightarrow> val \<Rightarrow> nat \<Rightarrow> val" where
  "eachElem h v i = (let xs = eachElems h v in if i < length xs then xs ! i else Undefined)"

definition toPropertyKey :: "'w env \<Rightarrow> val \<Rightarrow> string" where
  "toPropertyKey env v =
     (case v of
        Str k \<Rightarrow> k
      | Undefined \<Rightarrow> ''undefined''
      | Null \<Rightarrow> ''null''
      | Bool b \<Rightarrow> (if b then ''true'' else ''false'')
      | _ \<Rightarrow> toStr env v)"

text \<open>What a call sees behind its arguments.\<close>

definition contents :: "obj list \<Rightarrow> val list \<Rightarrow> obj option list" where
  "contents h args = map (\<lambda>v. case v of Ref a \<Rightarrow> deref h a | _ \<Rightarrow> None) args"

text \<open>Calling a value: a \<^verbatim>\<open>TypeError\<close> when it is not a function; otherwise the call is
  recorded with its outcome, the store is as the callee left it, and an exception of the
  callee propagates.\<close>

definition invoke :: "'w env \<Rightarrow> val \<Rightarrow> val list \<Rightarrow> 'w state \<Rightarrow> (error + val) \<times> 'w state" where
  "invoke env f args s =
     (case f of
        Fn n \<Rightarrow>
          (let (r, h, w) = call env n args (heap s) (world s);
               s' = s\<lparr>heap := h, world := w,
                      trace := trace s @ [Called n args (contents (heap s) args) r]\<rparr>
           in (case r of Inl t \<Rightarrow> (Inl (Thrown t), s') | Inr v \<Rightarrow> (Inr v, s')))
      | _ \<Rightarrow> (Inl (TypeError ''is not a function''), s))"

section \<open>Lodash predicates and the argument checks\<close>

definition isNil :: "val \<Rightarrow> bool" where
  "isNil v = (v = Undefined \<or> v = Null)"

definition isString :: "val \<Rightarrow> bool" where
  "isString v = (case v of Str _ \<Rightarrow> True | _ \<Rightarrow> False)"

definition isFunction :: "val \<Rightarrow> bool" where
  "isFunction v = (case v of Fn _ \<Rightarrow> True | _ \<Rightarrow> False)"

definition isObject :: "val \<Rightarrow> bool" where
  "isObject v = (case v of Fn _ \<Rightarrow> True | Ref _ \<Rightarrow> True | _ \<Rightarrow> False)"

definition isArray :: "obj list \<Rightarrow> val \<Rightarrow> bool" where
  "isArray h v = (arrayElems h v \<noteq> None)"

definition getDisplayName :: "val \<Rightarrow> val \<Rightarrow> val" where
  "getDisplayName name idv = (if isNil name then idv else name)"

definition checkFieldType :: "val \<Rightarrow> error option" where
  "checkFieldType field =
     (if \<not> isObject field then Some (TypeError ''field can't be null and must be an object.'')
      else None)"

definition checkId :: "val \<Rightarrow> error option" where
  "checkId idv =
     (if \<not> isString idv then Some (TypeError ''id must not be null and must be a string.'')
      else None)"

definition checkGetter :: "val \<Rightarrow> error option" where
  "checkGetter getter =
     (if \<not> isFunction getter then Some (TypeError ''getter must a function without paramter.'')
      else None)"

definition checkName :: "val \<Rightarrow> error option" where
  "checkName name =
     (if isNil name then None
      else if \<not> isString name then Some (TypeError ''name must be a string.'')
      else None)"

definition checkGroups :: "obj list \<Rightarrow> val \<Rightarrow> error option" where
  "checkGroups h groups =
     (if isNil groups then None
      else case arrayElems h groups of
             None \<Rightarrow> Some (TypeError ''groups must be an array of strings.'')
           | Some xs \<Rightarrow>
               (if list_ex (\<lambda>element. \<not> isString element) xs
                then Some (TypeError ''groups must be an array of strings.'')
                else None))"

definition checkValidationChain :: "obj list \<Rightarrow> val \<Rightarrow> error option" where
  "checkValidationChain h validationChain =
     (if isNil validationChain then None
      else if \<not> isArray h validationChain
        then Some (TypeError ''validation chain must be array of functions.'')
      else None)"

definition checkCallback :: "val \<Rightarrow> error option" where
  "checkCallback callback =
     (if isNil callback then None
      else if \<not> isFunction callback then Some (TypeError ''callback must be a function.'')
      else None)"

definition checkListener :: "val \<Rightarrow> error option" where
  "checkListener listener =
     (if isNil listener then None
      else if \<not> isFunction listener
        then Some (TypeError ''listener must be a function with a parameter.'')
      else None)"

text \<open>The checks of an operation run in order; the first that fails throws.\<close>

fun firstError :: "error option list \<Rightarrow> error option" where
  "firstError [] = None"
| "firstError (Some e # cs) = Some e"
| "firstError (None # cs) = firstError cs"

definition runCallback :: "'w env \<Rightarrow> val \<Rightarrow> 'w state \<Rightarrow> (error + val) \<times> 'w state" where
  "runCallback env callback s =
     (if isNil callback then (Inr Undefined, s) else invoke env callback [] s)"

section \<open>Helpers of the registry\<close>

text \<open>
  The read \<^verbatim>\<open>validationStorage[id]\<close>: the field record when the id is an own key of the
  dictionary, and otherwise what the prototype of the dictionary holds under that name.
\<close>

definition storageEntry :: "'w env \<Rightarrow> 'w state \<Rightarrow> string \<Rightarrow> val" where
  "storageEntry env s k =
     (case map_of (validationStorage s) k of
        Some a \<Rightarrow> Ref a
      | None \<Rightarrow> (case inherited env k of Some n \<Rightarrow> Fn n | None \<Rightarrow> Undefined))"

definition warn :: "diagnostic \<Rightarrow> 'w state \<Rightarrow> 'w state" where
  "warn d s = s\<lparr>trace := trace s @ [Warn d]\<rparr>"

definition warnWhenNotRegistered :: "'w env \<Rightarrow> string \<Rightarrow> 'w state \<Rightarrow> 'w state" where
  "warnWhenNotRegistered env k s =
     (if isNil (storageEntry env s k) then warn (NotRegistered k) s else s)"

text \<open>
  A group map is made by \<^verbatim>\<open>operation.js\<close> itself, with \<^verbatim>\<open>{}\<close>: its prototype is
  \<^verbatim>\<open>Object.prototype\<close>, whose members are functions of the runtime (given the identities
  100 onwards; \<^verbatim>\<open>__proto__\<close> yields an object, of which only its not being nil matters).
  The read \<^verbatim>\<open>group[id]\<close> finds the own flag or the inherited member.
\<close>

definition objectPrototypeNames :: "string list" where
  "objectPrototypeNames =
     [''constructor'', ''hasOwnProperty'', ''isPrototypeOf'', ''propertyIsEnumerable'',
      ''toLocaleString'', ''toString'', ''valueOf'', ''__proto__'', ''__defineGetter__'',
      ''__defineSetter__'', ''__lookupGetter__'', ''__lookupSetter__'']"

definition objectPrototype :: "string \<Rightarrow> nat option" where
  "objectPrototype k = map_of (zip objectPrototypeNames [100..<112]) k"

definition truthy :: "val \<Rightarrow> bool" where
  "truthy v =
     (case v of
        Undefined \<Rightarrow> False
      | Null \<Rightarrow> False
      | Bool b \<Rightarrow> b
      | Num n \<Rightarrow> n \<noteq> 0
      | Str cs \<Rightarrow> cs \<noteq> []
      | _ \<Rightarrow> True)"

definition memberValue :: "(string \<times> bool) list \<Rightarrow> string \<Rightarrow> val" where
  "memberValue idMap k =
     (case map_of idMap k of
        Some flag \<Rightarrow> Bool flag
      | None \<Rightarrow> (case objectPrototype k of Some n \<Rightarrow> Fn n | None \<Rightarrow> Undefined))"

text \<open>Lines 106 to 111. When \<^verbatim>\<open>groupStroage[groupName]\<close> is an inherited function, its
  property \<^verbatim>\<open>id\<close> is undefined.\<close>

definition warnWhenIdNotInGroup :: "string \<Rightarrow> string \<Rightarrow> 'w state \<Rightarrow> 'w state" where
  "warnWhenIdNotInGroup k groupName s =
     (case map_of (groupStroage s) groupName of
        Some idMap \<Rightarrow> (if \<not> truthy (memberValue idMap k) then warn (NotInGroup k groupName) s else s)
      | None \<Rightarrow> warn (NotInGroup k groupName) s)"

definition warnWhenIdHaveRegister :: "'w env \<Rightarrow> string \<Rightarrow> 'w state \<Rightarrow> 'w state" where
  "warnWhenIdHaveRegister env k s =
     (if isNil (storageEntry env s k) then s else warn (HaveRegistered k) s)"

text \<open>
  \<^verbatim>\<open>group = groupStroage[element]\<close>, created empty when the read is falsy, then
  \<^verbatim>\<open>group[id] = true\<close>. When the name is not an own key and the prototype holds a function
  under it, the read is truthy, no group is created and the flag is written on that
  function: the group storage stays as it is.
\<close>

definition setMember ::
  "'w env \<Rightarrow> string \<Rightarrow> string \<Rightarrow> (string \<times> (string \<times> bool) list) list
     \<Rightarrow> (string \<times> (string \<times> bool) list) list" where
  "setMember env g k gs =
     (case map_of gs g of
        Some idMap \<Rightarrow> AList.update g (AList.update k True idMap) gs
      | None \<Rightarrow>
          (case inherited env g of
             Some n \<Rightarrow> gs
           | None \<Rightarrow> AList.update g (AList.update k True []) gs))"

definition addToSet :: "string list \<Rightarrow> string \<Rightarrow> string list" where
  "addToSet acc k = (if k \<in> set acc then acc else acc @ [k])"

text \<open>Lines 79 to 97. For a name that is not an own key of the group storage,
  \<^verbatim>\<open>groupStroage[element] || {}\<close> is an inherited function or the empty object: neither
  has an enumerable property for the \<^verbatim>\<open>for ... in\<close> loop to visit.\<close>

definition getIdsFromGroups :: "'w env \<Rightarrow> 'w state \<Rightarrow> val \<Rightarrow> string list" where
  "getIdsFromGroups env s groups =
     (if isNil groups then map fst (validationStorage s)
      else
        foldl (\<lambda>fieldIdSet element.
                 let group = (case map_of (groupStroage s) (toPropertyKey env element) of
                                None \<Rightarrow> [] | Some m \<Rightarrow> m)
                 in foldl (\<lambda>acc k. if map_of group k = Some True then addToSet acc k else acc)
                      fieldIdSet (map fst group))
          [] (eachElems (heap s) groups))"

section \<open>The operations\<close>

subsection \<open>register\<close>

definition register ::
  "'w env \<Rightarrow> val \<Rightarrow> val \<Rightarrow> val \<Rightarrow> 'w state \<Rightarrow> (error + val) \<times> 'w state" where
  "register env field validationChain callback s =
     (case checkFieldType field of
        Some e \<Rightarrow> (Inl e, s)
      | None \<Rightarrow>
          (let idv = getProp (heap s) field ''id'';
               getter = getProp (heap s) field ''getter'';
               groups = getProp (heap s) field ''groups'';
               name = getProp (heap s) field ''name''
           in (case firstError [checkId idv, checkGetter getter, checkName name,
                                checkGroups (heap s) groups,
                                checkValidationChain (heap s) validationChain,
                                checkCallback callback] of
                 Some e \<Rightarrow> (Inl e, s)
               | None \<Rightarrow>
                   (let k = toPropertyKey env idv;
                        s1 = warnWhenIdHaveRegister env k s
                    in if \<not> isNil (storageEntry env s1 k) then (Inr Undefined, s1)
                       else
                         (let (a, s2) = alloc (Obj [(''name'', name),
                                                    (''validationChain'', validationChain),
                                                    (''getter'', getter)]) s1;
                              s3 = s2\<lparr>validationStorage := AList.update k a (validationStorage s2)\<rparr>;
                              s4 = (if isNil groups then s3
                                    else s3\<lparr>groupStroage :=
                                           foldl (\<lambda>gs element.
                                                    setMember env (toPropertyKey env element) k gs)
                                             (groupStroage s3) (eachElems (heap s3) groups)\<rparr>)
                          in (case runCallback env callback s4 of
                                (Inl e, s5) \<Rightarrow> (Inl e, s5)
                              | (Inr _, s5) \<Rightarrow> (Inr (Bool True), s5)))))))"

subsection \<open>validateOne and validate\<close>

text \<open>
  Lines 202 to 205, the visits \<open>is\<close> of the loop over the chain: for visit \<open>i\<close> the entry
  \<open>f\<close> is read from the chain, the argument object
  \<^verbatim>\<open>{name: getDisplayName(name, id), value: getter()}\<close> is built (the getter is called while
  the argument is evaluated, before \<open>f\<close> is called), then \<open>f\<close> is called and its result
  pushed on the result array at address \<open>r\<close>.
\<close>

fun collectResults ::
  "'w env \<Rightarrow> val \<Rightarrow> val \<Rightarrow> addr \<Rightarrow> val \<Rightarrow> nat list \<Rightarrow> 'w state \<Rightarrow> (error + unit) \<times> 'w state" where
  "collectResults env displayName getter r validationChain [] s = (Inr (), s)"
| "collectResults env displayName getter r validationChain (i # rest) s =
     (let f = eachElem (heap s) validationChain i
      in (case invoke env getter [] s of
            (Inl e, s1) \<Rightarrow> (Inl e, s1)
          | (Inr v, s1) \<Rightarrow>
              (let (a, s2) = alloc (Obj [(''name'', displayName), (''value'', v)]) s1
               in (case invoke env f [Ref a] s2 of
                     (Inl e, s3) \<Rightarrow> (Inl e, s3)
                   | (Inr result, s3) \<Rightarrow>
                       collectResults env displayName getter r validationChain rest
                         (push r result s3)))))"

text \<open>Lines 211 to 213, the visits \<open>is\<close> of the loop over the listeners: the entry is read
  from the listener array and called with the result array.\<close>

fun notifyListeners ::
  "'w env \<Rightarrow> addr \<Rightarrow> val \<Rightarrow> nat list \<Rightarrow> 'w state \<Rightarrow> (error + unit) \<times> 'w state" where
  "notifyListeners env r listeners [] s = (Inr (), s)"
| "notifyListeners env r listeners (i # rest) s =
     (case invoke env (eachElem (heap s) listeners i) [Ref r] s of
        (Inl e, s1) \<Rightarrow> (Inl e, s1)
      | (Inr _, s1) \<Rightarrow> notifyListeners env r listeners rest s1)"

text \<open>Lines 208 to 217: the result array is put in the cache, the listeners are notified,
  the callback is called and the result array returned.\<close>

definition finishValidation ::
  "'w env \<Rightarrow> string \<Rightarrow> addr \<Rightarrow> val \<Rightarrow> val \<Rightarrow> 'w state \<Rightarrow> (error + val) \<times> 'w state" where
  "finishValidation env k r listeners callback s3 =
     (let s4 = s3\<lparr>resultCache := AList.update k (Ref r) (resultCache s3)\<rparr>
      in (case notifyListeners env r listeners [0..<eachLength (heap s4) listeners] s4 of
            (Inl e, s5) \<Rightarrow> (Inl e, s5)
          | (Inr _, s5) \<Rightarrow>
              (case runCallback env callback s5 of
                 (Inl e, s6) \<Rightarrow> (Inl e, s6)
               | (Inr _, s6) \<Rightarrow> (Inr (Ref r), s6))))"

text \<open>
  Line 198 reads the four properties of the record once, before the first call. The
  destructuring default \<^verbatim>\<open>listeners = []\<close> applies when the property is undefined; that
  empty array is only iterated.
\<close>

definition validateOne ::
  "'w env \<Rightarrow> val \<Rightarrow> val \<Rightarrow> 'w state \<Rightarrow> (error + val) \<times> 'w state" where
  "validateOne env idv callback s =
     (case firstError [checkId idv, checkCallback callback] of
        Some e \<Rightarrow> (Inl e, s)
      | None \<Rightarrow>
          (let k = toPropertyKey env idv;
               validation = storageEntry env s k;
               s1 = warnWhenNotRegistered env k s
           in if isNil validation then (Inr Undefined, s1)
              else
                (let name = getProp (heap s1) validation ''name'';
                     getter = getProp (heap s1) validation ''getter'';
                     validationChain = getProp (heap s1) validation ''validationChain'';
                     listeners = getProp (heap s1) validation ''listeners'';
                     (r, s2) = alloc (Arr []) s1
                 in (case (if isNil validationChain then (Inr (), s2)
                           else collectResults env (getDisplayName name idv) getter r
                                  validationChain [0..<eachLength (heap s2) validationChain] s2) of
                       (Inl e, s3) \<Rightarrow> (Inl e, s3)
                     | (Inr _, s3) \<Rightarrow> finishValidation env k r listeners callback s3))))"

text \<open>Lines 172 to 175: \<^verbatim>\<open>result[element] = validateOne(validator, element, null)\<close> for each
  id, on the result object at address \<open>ra\<close>.\<close>

fun validateEach ::
  "'w env \<Rightarrow> addr \<Rightarrow> string list \<Rightarrow> 'w state \<Rightarrow> (error + unit) \<times> 'w state" where
  "validateEach env ra [] s = (Inr (), s)"
| "validateEach env ra (element # rest) s =
     (case validateOne env (Str element) Null s of
        (Inl e, s1) \<Rightarrow> (Inl e, s1)
      | (Inr validationResult, s1) \<Rightarrow>
          validateEach env ra rest (setProp ra element validationResult s1))"

definition validate ::
  "'w env \<Rightarrow> val \<Rightarrow> val \<Rightarrow> 'w state \<Rightarrow> (error + val) \<times> 'w state" where
  "validate env groups callback s =
     (case firstError [checkGroups (heap s) groups, checkCallback callback] of
        Some e \<Rightarrow> (Inl e, s)
      | None \<Rightarrow>
          (let fieldIds = getIdsFromGroups env s groups;
               (ra, s1) = alloc (Obj []) s
           in (case validateEach env ra fieldIds s1 of
                 (Inl e, s2) \<Rightarrow> (Inl e, s2)
               | (Inr _, s2) \<Rightarrow>
                   (case runCallback env callback s2 of
                      (Inl e, s3) \<Rightarrow> (Inl e, s3)
                    | (Inr _, s3) \<Rightarrow> (Inr (Ref ra), s3)))))"

subsection \<open>subscribe, the unsubscribe closure, clearListeners\<close>

text \<open>
  The closure returned by \<^verbatim>\<open>subscribe\<close> captures three variables of the call: the array
  \<^verbatim>\<open>listeners\<close>, the value \<^verbatim>\<open>validation\<close> (the field record) and the \<^verbatim>\<open>listener\<close>.
\<close>

datatype unsubscribe =
  Unsubscribe (capturedListeners: addr) (capturedValidation: val) (capturedListener: val)

datatype subscription = ReturnedTrue | ReturnedClosure unsubscribe

text \<open>
  Line 237, \<^verbatim>\<open>const {listeners = []} = validation\<close>: destructuring an undefined or null
  \<^verbatim>\<open>validation\<close> throws; an undefined property takes the default, a new empty array.
  Line 238 needs \<^verbatim>\<open>listeners\<close> to be an array.
\<close>

definition listenersOf :: "val \<Rightarrow> 'w state \<Rightarrow> (addr \<times> 'w state) option" where
  "listenersOf validation s =
     (case getProp (heap s) validation ''listeners'' of
        Undefined \<Rightarrow> Some (alloc (Arr []) s)
      | Ref la \<Rightarrow> (if isArray (heap s) (Ref la) then Some (la, s) else None)
      | _ \<Rightarrow> None)"

definition subscribe ::
  "'w env \<Rightarrow> val \<Rightarrow> val \<Rightarrow> val \<Rightarrow> 'w state \<Rightarrow> (error + subscription) \<times> 'w state" where
  "subscribe env idv listener callback s =
     (case firstError [checkListener listener, checkCallback callback] of
        Some e \<Rightarrow> (Inl e, s)
      | None \<Rightarrow>
          if isNil listener then (Inr ReturnedTrue, s)
          else
            (let k = toPropertyKey env idv;
                 s1 = warnWhenNotRegistered env k s;
                 validation = storageEntry env s1 k
             in if isNil validation then (Inl (TypeError ''cannot destructure undefined''), s1)
                else
                  (case listenersOf validation s1 of
                     None \<Rightarrow> (Inl (TypeError ''listeners.push is not a function''), s1)
                   | Some (la, s2) \<Rightarrow>
                       (let s3 = push la listener s2;
                            s4 = assignProp validation ''listeners'' (Ref la) s3
                        in (case runCallback env callback s4 of
                              (Inl e, s5) \<Rightarrow> (Inl e, s5)
                            | (Inr _, s5) \<Rightarrow>
                                (Inr (ReturnedClosure (Unsubscribe la validation listener)), s5))))))"

text \<open>\<^verbatim>\<open>Array.prototype.indexOf\<close>: the first index holding a strictly equal value, or -1.\<close>

fun indexOf :: "val list \<Rightarrow> val \<Rightarrow> int" where
  "indexOf [] v = -1"
| "indexOf (x # xs) v =
     (if x = v then 0 else (let i = indexOf xs v in if i < 0 then -1 else i + 1))"

text \<open>\<^verbatim>\<open>Array.prototype.splice(start, deleteCount)\<close> without inserted items: a negative start
  counts from the end, and both are clamped to the array.\<close>

definition spliceArray :: "int \<Rightarrow> int \<Rightarrow> 'a list \<Rightarrow> 'a list" where
  "spliceArray start deleteCount xs =
     (let len = int (length xs);
          actualStart = (if start < 0 then max (len + start) 0 else min start len);
          actualDeleteCount = min (max deleteCount 0) (len - actualStart)
      in take (nat actualStart) xs @ drop (nat (actualStart + actualDeleteCount)) xs)"

text \<open>Lines 242 to 247, the body of the returned closure. A closure is only made by
  \<^verbatim>\<open>subscribe\<close>, where the captured \<^verbatim>\<open>listeners\<close> is an array.\<close>

definition callUnsubscribe :: "unsubscribe \<Rightarrow> 'w state \<Rightarrow> val \<times> 'w state" where
  "callUnsubscribe u s =
     (case deref (heap s) (capturedListeners u) of
        Some (Arr xs) \<Rightarrow>
          (let index = indexOf xs (capturedListener u);
               s1 = s\<lparr>heap := (heap s)[capturedListeners u := Arr (spliceArray index 1 xs)]\<rparr>;
               s2 = assignProp (capturedValidation u) ''listeners'' (Ref (capturedListeners u)) s1
           in (Bool True, s2))
      | _ \<Rightarrow> (Bool True, s))"

definition clearListeners ::
  "'w env \<Rightarrow> val \<Rightarrow> val \<Rightarrow> 'w state \<Rightarrow> (error + val) \<times> 'w state" where
  "clearListeners env idv callback s =
     (case firstError [checkId idv, checkCallback callback] of
        Some e \<Rightarrow> (Inl e, s)
      | None \<Rightarrow>
          (let k = toPropertyKey env idv;
               s1 = warnWhenNotRegistered env k s;
               validation = storageEntry env s1 k
           in if isNil validation then (Inr Undefined, s1)
              else
                (let (la, s2) = alloc (Arr []) s1;
                     s3 = assignProp validation ''listeners'' (Ref la) s2
                 in (case runCallback env callback s3 of
                       (Inl e, s4) \<Rightarrow> (Inl e, s4)
                     | (Inr _, s4) \<Rightarrow> (Inr Undefined, s4)))))"

subsection \<open>Group membership\<close>

text \<open>
  \<^verbatim>\<open>updateGroups\<close>, \<^verbatim>\<open>addGroup\<close> and \<^verbatim>\<open>removeGroup\<close> (like \<^verbatim>\<open>subscribe\<close>) do not call
  \<^verbatim>\<open>checkId\<close>: whatever \<^verbatim>\<open>id\<close> is, it is used as a property key. In \<^verbatim>\<open>updateGroups\<close>,
  \<^verbatim>\<open>groups.forEach\<close> on a null or undefined \<^verbatim>\<open>groups\<close> (which \<^verbatim>\<open>checkGroups\<close> lets through)
  throws after every group's flag for the id has been set to false.
\<close>

definition updateGroups ::
  "'w env \<Rightarrow> val \<Rightarrow> val \<Rightarrow> val \<Rightarrow> 'w state \<Rightarrow> (error + val) \<times> 'w state" where
  "updateGroups env idv groups callback s =
     (case firstError [checkGroups (heap s) groups, checkCallback callback] of
        Some e \<Rightarrow> (Inl e, s)
      | None \<Rightarrow>
          (let k = toPropertyKey env idv;
               s1 = warnWhenNotRegistered env k s;
               s2 = s1\<lparr>groupStroage :=
                      map (\<lambda>(g, element). (g, AList.update k False element)) (groupStroage s1)\<rparr>
           in (case arrayElems (heap s2) groups of
                 None \<Rightarrow> (Inl (TypeError ''cannot read property forEach of null or undefined''), s2)
               | Some xs \<Rightarrow>
                   (let s3 = s2\<lparr>groupStroage :=
                               foldl (\<lambda>gs element. setMember env (toPropertyKey env element) k gs)
                                 (groupStroage s2) xs\<rparr>
                    in (case runCallback env callback s3 of
                          (Inl e, s4) \<Rightarrow> (Inl e, s4)
                        | (Inr _, s4) \<Rightarrow> (Inr (Bool True), s4))))))"

text \<open>\<^verbatim>\<open>checkGroups([group])\<close>: the one-element array is never nil, so the group must be a
  string.\<close>

definition checkGroup :: "val \<Rightarrow> error option" where
  "checkGroup groupName =
     (if \<not> isString groupName then Some (TypeError ''groups must be an array of strings.'')
      else None)"

definition addGroup ::
  "'w env \<Rightarrow> val \<Rightarrow> val \<Rightarrow> val \<Rightarrow> 'w state \<Rightarrow> (error + val) \<times> 'w state" where
  "addGroup env idv groupName callback s =
     (case firstError [checkGroup groupName, checkCallback callback] of
        Some e \<Rightarrow> (Inl e, s)
      | None \<Rightarrow>
          (let k = toPropertyKey env idv;
               s1 = warnWhenNotRegistered env k s;
               s2 = s1\<lparr>groupStroage := setMember env (toPropertyKey env groupName) k (groupStroage s1)\<rparr>
           in (case runCallback env callback s2 of
                 (Inl e, s3) \<Rightarrow> (Inl e, s3)
               | (Inr _, s3) \<Rightarrow> (Inr (Bool True), s3))))"

text \<open>Lines 343 to 349: when \<^verbatim>\<open>groupStroage[group]\<close> is an inherited function it is not nil,
  and \<^verbatim>\<open>groupInfo[id] = false\<close> is written on that function.\<close>

definition removeGroup ::
  "'w env \<Rightarrow> val \<Rightarrow> val \<Rightarrow> val \<Rightarrow> 'w state \<Rightarrow> (error + val) \<times> 'w state" where
  "removeGroup env idv groupName callback s =
     (case firstError [checkGroup groupName, checkCallback callback] of
        Some e \<Rightarrow> (Inl e, s)
      | None \<Rightarrow>
          (let k = toPropertyKey env idv;
               g = toPropertyKey env groupName;
               s1 = warnWhenNotRegistered env k s
           in if isNil (storageEntry env s1 k) then (Inr Undefined, s1)
              else
                (let s2 = warnWhenIdNotInGroup k g s1
                 in (case map_of (groupStroage s2) g of
                       None \<Rightarrow>
                         (case inherited env g of
                            None \<Rightarrow> (Inr Undefined, s2)
                          | Some n \<Rightarrow>
                              (case runCallback env callback s2 of
                                 (Inl e, s4) \<Rightarrow> (Inl e, s4)
                               | (Inr _, s4) \<Rightarrow> (Inr Undefined, s4)))
                     | Some groupInfo \<Rightarrow>
                         (let s3 = s2\<lparr>groupStroage :=
                                     AList.update g (AList.update k False groupInfo) (groupStroage s2)\<rparr>
                          in (case runCallback env callback s3 of
                                (Inl e, s4) \<Rightarrow> (Inl e, s4)
                              | (Inr _, s4) \<Rightarrow> (Inr Undefined, s4)))))))"

subsection \<open>deregister and the result cache\<close>

definition deregister ::
  "'w env \<Rightarrow> val \<Rightarrow> val \<Rightarrow> 'w state \<Rightarrow> (error + val) \<times> 'w state" where
  "deregister env idv callback s =
     (case firstError [checkId idv, checkCallback callback] of
        Some e \<Rightarrow> (Inl e, s)
      | None \<Rightarrow>
          (let k = toPropertyKey env idv;
               validation = storageEntry env s k;
               s1 = warnWhenNotRegistered env k s
           in if isNil validation then (Inr Undefined, s1)
              else
                (let s2 = s1\<lparr>validationStorage := AList.delete k (validationStorage s1),
                             resultCache := AList.update k Undefined (resultCache s1)\<rparr>
                 in (case runCallback env callback s2 of
                       (Inl e, s3) \<Rightarrow> (Inl e, s3)
                     | (Inr _, s3) \<Rightarrow> (Inr Undefined, s3)))))"

text \<open>
  \<^verbatim>\<open>_.clone\<close> is lodash's shallow clone: a new array or object with the same property
  values (a reference stays a reference to the same object), an empty object for a
  function, the value itself for a primitive.
\<close>

definition clone :: "val \<Rightarrow> 'w state \<Rightarrow> val \<times> 'w state" where
  "clone v s =
     (case v of
        Ref a \<Rightarrow>
          (case deref (heap s) a of
             Some ob \<Rightarrow> (let (a', s') = alloc ob s in (Ref a', s'))
           | None \<Rightarrow> (v, s))
      | Fn _ \<Rightarrow> (let (a', s') = alloc (Obj []) s in (Ref a', s'))
      | _ \<Rightarrow> (v, s))"

definition cacheEntry :: "'w state \<Rightarrow> string \<Rightarrow> val" where
  "cacheEntry s k = (case map_of (resultCache s) k of None \<Rightarrow> Undefined | Some v \<Rightarrow> v)"

definition getOneResult :: "'w env \<Rightarrow> val \<Rightarrow> 'w state \<Rightarrow> (error + val) \<times> 'w state" where
  "getOneResult env idv s =
     (case checkId idv of
        Some e \<Rightarrow> (Inl e, s)
      | None \<Rightarrow>
          (let k = toPropertyKey env idv;
               s1 = warnWhenNotRegistered env k s;
               (v, s2) = clone (cacheEntry s1 k) s1
           in (Inr v, s2)))"

fun getEach :: "'w env \<Rightarrow> addr \<Rightarrow> string list \<Rightarrow> 'w state \<Rightarrow> (error + unit) \<times> 'w state" where
  "getEach env ra [] s = (Inr (), s)"
| "getEach env ra (k # rest) s =
     (case getOneResult env (Str k) s of
        (Inl e, s1) \<Rightarrow> (Inl e, s1)
      | (Inr v, s1) \<Rightarrow> getEach env ra rest (setProp ra k v s1))"

definition getResults :: "'w env \<Rightarrow> val \<Rightarrow> 'w state \<Rightarrow> (error + val) \<times> 'w state" where
  "getResults env groups s =
     (case checkGroups (heap s) groups of
        Some e \<Rightarrow> (Inl e, s)
      | None \<Rightarrow>
          (let fieldIds = getIdsFromGroups env s groups;
               (ra, s1) = alloc (Obj []) s
           in (case getEach env ra fieldIds s1 of
                 (Inl e, s2) \<Rightarrow> (Inl e, s2)
               | (Inr _, s2) \<Rightarrow> (Inr (Ref ra), s2))))"

definition clearOneResult :: "'w env \<Rightarrow> val \<Rightarrow> 'w state \<Rightarrow> (error + val) \<times> 'w state" where
  "clearOneResult env idv s =
     (case checkId idv of
        Some e \<Rightarrow> (Inl e, s)
      | None \<Rightarrow>
          (let k = toPropertyKey env idv;
               s1 = warnWhenNotRegistered env k s
           in (Inr Undefined, s1\<lparr>resultCache := AList.update k Undefined (resultCache s1)\<rparr>)))"

fun clearEach :: "'w env \<Rightarrow> string list \<Rightarrow> 'w state \<Rightarrow> (error + unit) \<times> 'w state" where
  "clearEach env [] s = (Inr (), s)"
| "clearEach env (k # rest) s =
     (case clearOneResult env (Str k) s of
        (Inl e, s1) \<Rightarrow> (Inl e, s1)
      | (Inr _, s1) \<Rightarrow> clearEach env rest s1)"

definition clearResults :: "'w env \<Rightarrow> val \<Rightarrow> 'w state \<Rightarrow> (error + val) \<times> 'w state" where
  "clearResults env groups s =
     (case checkGroups (heap s) groups of
        Some e \<Rightarrow> (Inl e, s)
      | None \<Rightarrow>
          (case clearEach env (getIdsFromGroups env s groups) s of
             (Inl e, s1) \<Rightarrow> (Inl e, s1)
           | (Inr _, s1) \<Rightarrow> (Inr Undefined, s1)))"

subsection \<open>Printing\<close>

text \<open>
  \<^verbatim>\<open>const {validationChain = []} = value\<close> followed by \<^verbatim>\<open>validationChain.length\<close>: a chain
  stored by \<^verbatim>\<open>register\<close> is undefined, null or an array; the default replaces only
  undefined, so a null chain makes \<^verbatim>\<open>.length\<close> throw.
\<close>

definition chainLength :: "obj list \<Rightarrow> val \<Rightarrow> nat option" where
  "chainLength h validationChain =
     (if validationChain = Undefined then Some 0
      else map_option length (arrayElems h validationChain))"

fun printValidationInfoHelper :: "obj list \<Rightarrow> (string \<times> addr) list \<Rightarrow> error + validationInfo" where
  "printValidationInfoHelper h [] = Inr []"
| "printValidationInfoHelper h ((k, va) # rest) =
     (case chainLength h (getProp h (Ref va) ''validationChain'') of
        None \<Rightarrow> Inl (TypeError ''cannot read property length of null'')
      | Some n \<Rightarrow>
          (case printValidationInfoHelper h rest of
             Inl e \<Rightarrow> Inl e
           | Inr infos \<Rightarrow>
               Inr ((k, getProp h (Ref va) ''name'', n,
                     map_option length (arrayElems h (getProp h (Ref va) ''listeners''))) # infos)))"

definition printGroupInfoHelper :: "(string \<times> (string \<times> bool) list) list \<Rightarrow> groupInfo" where
  "printGroupInfoHelper gs =
     map (\<lambda>(groupName, idMap).
            (groupName, filter (\<lambda>k. map_of idMap k = Some True) (map fst idMap))) gs"

definition printValidationInfo :: "'w state \<Rightarrow> (error + val) \<times> 'w state" where
  "printValidationInfo s =
     (case printValidationInfoHelper (heap s) (validationStorage s) of
        Inl e \<Rightarrow> (Inl e, s)
      | Inr infos \<Rightarrow> (Inr Undefined, s\<lparr>trace := trace s @ [InfoValidation infos]\<rparr>))"

definition printGroupInfo :: "'w state \<Rightarrow> (error + val) \<times> 'w state" where
  "printGroupInfo s =
     (Inr Undefined, s\<lparr>trace := trace s @ [InfoGroup (printGroupInfoHelper (groupStroage s))]\<rparr>)"

definition printAllInfo :: "'w state \<Rightarrow> (error + val) \<times> 'w state" where
  "printAllInfo s =
     (case printValidationInfoHelper (heap s) (validationStorage s) of
        Inl e \<Rightarrow> (Inl e, s)
      | Inr infos \<Rightarrow>
          (Inr Undefined,
           s\<lparr>trace := trace s @ [InfoAll infos (printGroupInfoHelper (groupStroage s))]\<rparr>))"

section \<open>Sequences of operations\<close>

text \<open>
  What a caller can do to a registry: call an exported function, call an unsubscribe
  closure, or create an object of its own in the store (the field objects, group arrays
  and validation chains it passes in).
\<close>

datatype operation =
    Register val val val
  | Validate val val
  | ValidateOne val val
  | Subscribe val val val
  | CallUnsubscribe unsubscribe
  | ClearListeners val val
  | UpdateGroups val val val
  | AddGroup val val val
  | RemoveGroup val val val
  | Deregister val val
  | GetOneResult val
  | GetResults val
  | ClearOneResult val
  | ClearResults val
  | PrintValidationInfo
  | PrintGroupInfo
  | PrintAllInfo
  | NewObject obj

text \<open>The state an operation leaves behind, whether it returns or throws.\<close>

fun perform :: "'w env \<Rightarrow> operation \<Rightarrow> 'w state \<Rightarrow> 'w state" where
  "perform env (Register field validationChain callback) s =
     snd (register env field validationChain callback s)"
| "perform env (Validate groups callback) s = snd (validate env groups callback s)"
| "perform env (ValidateOne idv callback) s = snd (validateOne env idv callback s)"
| "perform env (Subscribe idv listener callback) s = snd (subscribe env idv listener callback s)"
| "perform env (CallUnsubscribe u) s = snd (callUnsubscribe u s)"
| "perform env (ClearListeners idv callback) s = snd (clearListeners env idv callback s)"
| "perform env (UpdateGroups idv groups callback) s = snd (updateGroups env idv groups callback s)"
| "perform env (AddGroup idv groupName callback) s = snd (addGroup env idv groupName callback s)"
| "perform env (RemoveGroup idv groupName callback) s =
     snd (removeGroup env idv groupName callback s)"
| "perform env (Deregister idv callback) s = snd (deregister env idv callback s)"
| "perform env (GetOneResult idv) s = snd (getOneResult env idv s)"
| "perform env (GetResults groups) s = snd (getResults env groups s)"
| "perform env (ClearOneResult idv) s = snd (clearOneResult env idv s)"
| "perform env (ClearResults groups) s = snd (clearResults env groups s)"
| "perform env PrintValidationInfo s = snd (printValidationInfo s)"
| "perform env PrintGroupInfo s = snd (printGroupInfo s)"
| "perform env PrintAllInfo s = snd (printAllInfo s)"
| "perform env (NewObject ob) s = snd (alloc ob s)"

definition emptyRegistry :: "'w \<Rightarrow> 'w state" where
  "emptyRegistry w =
     \<lparr>validationStorage = [], groupStroage = [], resultCache = [], heap = [], world = w,
      trace = []\<rparr>"

section \<open>An example caller\<close>

text \<open>
  The caller's state is a counter and its dictionaries are written \<^verbatim>\<open>{}\<close>. Function 0 is
  a getter returning the counter and incrementing it; function 1 is a check, true when
  the \<^verbatim>\<open>value\<close> of its argument is a number that is at least 18; function 2 throws; every
  other function returns undefined. None of them writes to the store.
\<close>

definition exampleEnv :: "nat env" where
  "exampleEnv =
     \<lparr>call = (\<lambda>f args h w.
         if f = 0 then (Inr (Num (int w)), h, Suc w)
         else if f = 1 then
           (case getProp h (case args of v # _ \<Rightarrow> v | [] \<Rightarrow> Undefined) ''value'' of
              Num n \<Rightarrow> (Inr (Bool (18 \<le> n)), h, w)
            | _ \<Rightarrow> (Inr (Bool False), h, w))
         else if f = 2 then (Inl (Str ''boom''), h, w)
         else (Inr Undefined, h, w)),
      inherited = objectPrototype,
      toStr = (\<lambda>v. ''[object Object]'')\<rparr>"

text \<open>The field object \<^verbatim>\<open>{id: "age", getter: f0, groups: ["adult-checks"]}\<close> at address 1,
  its group array at address 0 and the chain \<^verbatim>\<open>[f1]\<close> at address 2.\<close>

definition ageCaller :: "nat state" where
  "ageCaller =
     (emptyRegistry 17)\<lparr>heap :=
        [Arr [Str ''adult-checks''],
         Obj [(''id'', Str ''age''), (''getter'', Fn 0), (''groups'', Ref 0)],
         Arr [Fn 1]]\<rparr>"

definition ageRegistered :: "nat state" where
  "ageRegistered = snd (register exampleEnv (Ref 1) (Ref 2) Undefined ageCaller)"






section \<open>Notions used to state the properties\<close>

text \<open>An id is registered when it is a key of the field storage; the flag of an id in a
  group is true when the group storage has a map for the group that holds true for the
  id.\<close>

definition registered :: "'w state \<Rightarrow> string \<Rightarrow> bool" where
  "registered s k = (map_of (validationStorage s) k \<noteq> None)"

definition memberFlag :: "(string \<times> (string \<times> bool) list) list \<Rightarrow> string \<Rightarrow> string \<Rightarrow> bool" where
  "memberFlag gs g k =
     (case map_of gs g of None \<Rightarrow> False | Some m \<Rightarrow> (map_of m k = Some True))"

text \<open>
  What a caller function does, whatever its arguments, the store and the caller's state
  are: it returns normally; it keeps the objects at the addresses \<open>A\<close> as they are (it may
  write to any other object and make new ones); it is steady when it does both.
\<close>

definition returnsNormally :: "'w env \<Rightarrow> val \<Rightarrow> bool" where
  "returnsNormally env f =
     (case f of
        Fn n \<Rightarrow> (\<forall>args h w. \<exists>v h' w'. call env n args h w = (Inr v, h', w'))
      | _ \<Rightarrow> False)"

definition keeps :: "'w env \<Rightarrow> val \<Rightarrow> addr set \<Rightarrow> bool" where
  "keeps env f A =
     (case f of
        Fn n \<Rightarrow>
          (\<forall>args h w. \<forall>a\<in>A. \<forall>ob. deref h a = Some ob \<longrightarrow>
             deref (fst (snd (call env n args h w))) a = Some ob)
      | _ \<Rightarrow> True)"

definition steady :: "'w env \<Rightarrow> val \<Rightarrow> addr set \<Rightarrow> bool" where
  "steady env f A = (returnsNormally env f \<and> keeps env f A)"

definition callbackReturns :: "'w env \<Rightarrow> val \<Rightarrow> bool" where
  "callbackReturns env callback = (isNil callback \<or> returnsNormally env callback)"



definition fieldListeners :: "'w state \<Rightarrow> string \<Rightarrow> val list option" where
  "fieldListeners s k =
     (case map_of (validationStorage s) k of
        None \<Rightarrow> None
      | Some va \<Rightarrow> Some (eachElems (heap s) (getProp (heap s) (Ref va) ''listeners'')))"









definition getterCalls :: "val \<Rightarrow> event list \<Rightarrow> event list" where
  "getterCalls getter evs =
     filter (\<lambda>e. case e of Called f args seen out \<Rightarrow> Fn f = getter \<and> args = [] | _ \<Rightarrow> False) evs"

definition ageSubscribed :: "nat state" where
  "ageSubscribed = snd (subscribe exampleEnv (Str ''age'') (Fn 3) Undefined ageRegistered)"

definition ageTwoListeners :: "nat state" where
  "ageTwoListeners = snd (subscribe exampleEnv (Str ''age'') (Fn 5) Undefined ageSubscribed)"


text \<open>The closure returned by the first subscription of function 3 is
  \<open>Unsubscribe 4 (Ref 3) (Fn 3)\<close>: the listener array at address 4, the field record at 3.\<close>

definition ageUnsubscribedOnce :: "nat state" where
  "ageUnsubscribedOnce = snd (callUnsubscribe (Unsubscribe 4 (Ref 3) (Fn 3)) ageTwoListeners)"



text \<open>After the first subscription: the closure of function 3 is called (function 3 is
  removed), then \<^verbatim>\<open>clearListeners\<close>, then functions 5 and 6 subscribe.\<close>

definition ageStaleClosure :: "nat state" where
  "ageStaleClosure =
     snd (subscribe exampleEnv (Str ''age'') (Fn 6) Undefined
       (snd (subscribe exampleEnv (Str ''age'') (Fn 5) Undefined
         (snd (clearListeners exampleEnv (Str ''age'') Undefined
           (snd (callUnsubscribe (Unsubscribe 4 (Ref 3) (Fn 3)) ageSubscribed)))))))"

text \<open>Functions 3 and 5 subscribe; the closure of function 3 is called (function 3 is
  removed); the field is deregistered and registered again (its new record is at address
  5), and functions 5 and 6 subscribe to it.\<close>

definition ageReregistered :: "nat state" where
  "ageReregistered =
     snd (subscribe exampleEnv (Str ''age'') (Fn 6) Undefined
       (snd (subscribe exampleEnv (Str ''age'') (Fn 5) Undefined
         (snd (register exampleEnv (Ref 1) (Ref 2) Undefined
           (snd (deregister exampleEnv (Str ''age'') Undefined ageUnsubscribedOnce)))))))"








text \<open>
  What a caller sees when it reads a value to depth \<open>n\<close>: the value with every reference
  replaced by the contents of the object it points to.
\<close>

datatype tree = Leaf val | ArrayOf "tree list" | ObjectOf "(string \<times> tree) list"

fun deepValue :: "nat \<Rightarrow> obj list \<Rightarrow> val \<Rightarrow> tree" where
  "deepValue 0 h v = Leaf v"
| "deepValue (Suc n) h v =
     (case v of
        Ref a \<Rightarrow>
          (case deref h a of
             Some (Arr xs) \<Rightarrow> ArrayOf (map (deepValue n h) xs)
           | Some (Obj ps) \<Rightarrow> ObjectOf (map (\<lambda>(k, x). (k, deepValue n h x)) ps)
           | None \<Rightarrow> Leaf v)
      | _ \<Rightarrow> Leaf v)"




text \<open>
  The membership invariant of the specification: every id whose flag is true in some
  group's map is registered.
\<close>

definition membershipInvariant :: "'w state \<Rightarrow> bool" where
  "membershipInvariant s = (\<forall>g k. memberFlag (groupStroage s) g k \<longrightarrow> registered s k)"

text \<open>
  Sequences of operations in which \<^verbatim>\<open>addGroup\<close> and \<^verbatim>\<open>updateGroups\<close> are given registered
  ids only, and \<^verbatim>\<open>deregister\<close> is given only ids that no group flags true.
\<close>

fun admissible :: "'w env \<Rightarrow> 'w state \<Rightarrow> operation \<Rightarrow> bool" where
  "admissible env s (UpdateGroups idv groups callback) = registered s (toPropertyKey env idv)"
| "admissible env s (AddGroup idv groupName callback) = registered s (toPropertyKey env idv)"
| "admissible env s (Deregister idv callback) =
     list_all (\<lambda>g. \<not> memberFlag (groupStroage s) g (toPropertyKey env idv))
       (map fst (groupStroage s))"
| "admissible env s operation = True"

fun performAll :: "'w env \<Rightarrow> operation list \<Rightarrow> 'w state \<Rightarrow> 'w state" where
  "performAll env [] s = s"
| "performAll env (operation # rest) s = performAll env rest (perform env operation s)"

fun admissibleAll :: "'w env \<Rightarrow> operation list \<Rightarrow> 'w state \<Rightarrow> bool" where
  "admissibleAll env [] s = True"
| "admissibleAll env (operation # rest) s =
     (admissible env s operation \<and> admissibleAll env rest (perform env operation s))"

text \<open>The caller of the age example: it creates its three objects, then registers.\<close>

definition ageOperations :: "operation list" where
  "ageOperations =
     [NewObject (Arr [Str ''adult-checks'']),
      NewObject (Obj [(''id'', Str ''age''), (''getter'', Fn 0), (''groups'', Ref 0)]),
      NewObject (Arr [Fn 1]),
      Register (Ref 1) (Ref 2) Undefined]"

section \<open>Basic facts\<close>

lemma deref_append1: "a < length h \<Longrightarrow> deref (h @ h') a = deref h a"
  by (simp add: deref_def nth_append)

lemma deref_Some_less: "deref h a = Some ob \<Longrightarrow> a < length h"
  by (simp add: deref_def split: if_splits)


lemma deref_update: "deref (h[a := ob]) b = (if b < length h then (if a = b then Some ob else deref h b) else None)"
  by (simp add: deref_def)

lemma push_frame [simp]:
  "validationStorage (push a v s) = validationStorage s"
  "groupStroage (push a v s) = groupStroage s"
  "resultCache (push a v s) = resultCache s"
  "world (push a v s) = world s"
  "trace (push a v s) = trace s"
  by (simp_all add: push_def split: option.splits obj.splits)

lemma setProp_frame [simp]:
  "validationStorage (setProp a k v s) = validationStorage s"
  "groupStroage (setProp a k v s) = groupStroage s"
  "resultCache (setProp a k v s) = resultCache s"
  "world (setProp a k v s) = world s"
  "trace (setProp a k v s) = trace s"
  by (simp_all add: setProp_def split: option.splits obj.splits)

lemma assignProp_frame [simp]:
  "validationStorage (assignProp t k v s) = validationStorage s"
  "groupStroage (assignProp t k v s) = groupStroage s"
  "resultCache (assignProp t k v s) = resultCache s"
  "world (assignProp t k v s) = world s"
  "trace (assignProp t k v s) = trace s"
  by (simp_all add: assignProp_def split: val.splits)

lemma push_heap: "deref (heap s) a = Some (Arr xs) \<Longrightarrow> heap (push a v s) = (heap s)[a := Arr (xs @ [v])]"
  by (simp add: push_def)

lemma setProp_heap:
  "deref (heap s) a = Some (Obj ps) \<Longrightarrow> heap (setProp a k v s) = (heap s)[a := Obj (AList.update k v ps)]"
  by (simp add: setProp_def)




lemma invoke_Fn:
  "invoke env (Fn n) args s =
     (case call env n args (heap s) (world s) of
        (out, h, w) \<Rightarrow>
          ((case out of Inl t \<Rightarrow> Inl (Thrown t) | Inr v \<Rightarrow> Inr v),
           s\<lparr>heap := h, world := w,
             trace := trace s @ [Called n args (contents (heap s) args) out]\<rparr>))"
  by (simp add: invoke_def Let_def split: prod.splits sum.splits)

lemma invoke_maps:
  assumes "invoke env f args s = (res, s')"
  shows "validationStorage s' = validationStorage s"
    "groupStroage s' = groupStroage s" "resultCache s' = resultCache s"
  using assms by (auto simp: invoke_def Let_def split: val.splits prod.splits sum.splits)

lemma invoke_keeps:
  assumes "keeps env f A" "invoke env f args s = (res, s')" "a \<in> A"
    "deref (heap s) a = Some ob"
  shows "deref (heap s') a = Some ob"
proof (cases f)
  case (Fn n)
  obtain out h w where c: "call env n args (heap s) (world s) = (out, h, w)"
    by (cases "call env n args (heap s) (world s)") auto
  from assms(1,3,4) Fn have "deref (fst (snd (call env n args (heap s) (world s)))) a = Some ob"
    unfolding keeps_def by simp
  then show ?thesis using assms(2) Fn c by (auto simp: invoke_Fn)
qed (use assms in \<open>auto simp: invoke_def\<close>)


lemma returnsNormally_call:
  assumes "returnsNormally env (Fn n)" "call env n args h w = (out, h', w')"
  shows "\<exists>v. out = Inr v"
proof -
  from assms(1) obtain v h2 w2 where "call env n args h w = (Inr v, h2, w2)"
    unfolding returnsNormally_def by fastforce
  with assms(2) show ?thesis by auto
qed

lemma invoke_event:
  assumes "invoke env f args s = (res, s')"
  shows "(\<exists>n out. f = Fn n \<and> trace s' = trace s @ [Called n args (contents (heap s) args) out] \<and>
            res = (case out of Inl t \<Rightarrow> Inl (Thrown t) | Inr v \<Rightarrow> Inr v) \<and>
            (returnsNormally env f \<longrightarrow> (\<exists>v. out = Inr v))) \<or>
         ((\<forall>n. f \<noteq> Fn n) \<and> s' = s \<and> (\<exists>m. res = Inl (TypeError m)))"
proof (cases f)
  case (Fn n)
  obtain out h w where c: "call env n args (heap s) (world s) = (out, h, w)"
    by (cases "call env n args (heap s) (world s)") auto
  have "returnsNormally env f \<longrightarrow> (\<exists>v. out = Inr v)"
    using returnsNormally_call[OF _ c] Fn by blast
  then show ?thesis using assms Fn c by (auto simp: invoke_Fn)
qed (use assms in \<open>auto simp: invoke_def\<close>)



lemma eachElem_nth: "i < length (eachElems h v) \<Longrightarrow> eachElem h v i = eachElems h v ! i"
  by (simp add: eachElem_def)



lemma notify_shape:
  "notifyListeners env r listeners is s = (res, s') \<Longrightarrow>
   \<exists>rest. trace s' = trace s @ rest \<and>
     (\<forall>e\<in>set rest. \<exists>l seen out. e = Called l [Ref r] seen out) \<and>
     validationStorage s' = validationStorage s \<and> groupStroage s' = groupStroage s \<and>
     resultCache s' = resultCache s"
proof (induction "is" arbitrary: s)
  case Nil
  then show ?case by simp
next
  case (Cons i rest)
  obtain res1 s1 where i: "invoke env (eachElem (heap s) listeners i) [Ref r] s = (res1, s1)"
    by (cases "invoke env (eachElem (heap s) listeners i) [Ref r] s")
  note m = invoke_maps[OF i]
  from invoke_event[OF i] obtain ev where
    ev: "trace s1 = trace s @ ev" "\<forall>e\<in>set ev. \<exists>l seen out. e = Called l [Ref r] seen out"
    by (elim disjE exE conjE) (auto intro: exI[of _ "[]"])
  show ?case
  proof (cases res1)
    case (Inl e)
    then show ?thesis using Cons.prems i m ev by auto
  next
    case (Inr v)
    with Cons.prems i have "notifyListeners env r listeners rest s1 = (res, s')" by simp
    from Cons.IH[OF this] obtain rest' where
      "trace s' = trace s1 @ rest'" "\<forall>e\<in>set rest'. \<exists>l seen out. e = Called l [Ref r] seen out"
      "validationStorage s' = validationStorage s1" "groupStroage s' = groupStroage s1"
      "resultCache s' = resultCache s1" by blast
    then show ?thesis using m ev by (intro exI[of _ "ev @ rest'"]) auto
  qed
qed

lemma callback_run:
  assumes "checkCallback callback = None"
  shows "\<exists>res s' cb. runCallback env callback s = (res, s') \<and>
     validationStorage s' = validationStorage s \<and> groupStroage s' = groupStroage s \<and>
     resultCache s' = resultCache s \<and> trace s' = trace s @ cb \<and>
     (cb = [] \<or> (\<exists>c out. callback = Fn c \<and> cb = [Called c [] [] out])) \<and>
     (callbackReturns env callback \<longrightarrow> (\<exists>v. res = Inr v)) \<and>
     (\<forall>a ob. keeps env callback {a} \<longrightarrow> deref (heap s) a = Some ob \<longrightarrow>
              deref (heap s') a = Some ob) \<and>
     (isNil callback \<longrightarrow> s' = s)"
proof (cases "isNil callback")
  case True
  then show ?thesis by (simp add: runCallback_def)
next
  case False
  obtain res s' where i: "invoke env callback [] s = (res, s')" by (cases "invoke env callback [] s")
  from assms False obtain c where c: "callback = Fn c"
    by (cases callback) (simp_all add: checkCallback_def isFunction_def split: if_splits)
  from invoke_event[OF i] c obtain out where
    tr: "trace s' = trace s @ [Called c [] [] out]"
    and out: "res = (case out of Inl t \<Rightarrow> Inl (Thrown t) | Inr v \<Rightarrow> Inr v)"
    and rn: "returnsNormally env callback \<longrightarrow> (\<exists>v. out = Inr v)"
    by (auto simp: contents_def)
  have "callbackReturns env callback \<longrightarrow> (\<exists>v. res = Inr v)"
    using out rn False by (auto simp: callbackReturns_def)
  moreover have "\<forall>a ob. keeps env callback {a} \<longrightarrow> deref (heap s) a = Some ob \<longrightarrow>
              deref (heap s') a = Some ob"
    using invoke_keeps[OF _ i] by blast
  ultimately show ?thesis
    using False i invoke_maps[OF i] tr c by (simp add: runCallback_def)
qed



lemma keeps_mono: "keeps env f A \<Longrightarrow> B \<subseteq> A \<Longrightarrow> keeps env f B"
  unfolding keeps_def by (cases f) auto

lemma steady_mono: "steady env f A \<Longrightarrow> B \<subseteq> A \<Longrightarrow> steady env f B"
  unfolding steady_def using keeps_mono by blast



lemma finish_shape:
  assumes cb: "checkCallback callback = None"
    and f: "finishValidation env k r listeners callback s3 = (res, s')"
  shows "\<exists>rest. trace s' = trace s3 @ rest \<and>
     (\<forall>e\<in>set rest. (\<exists>l seen out. e = Called l [Ref r] seen out) \<or>
                     (\<exists>c out. callback = Fn c \<and> e = Called c [] [] out)) \<and>
     resultCache s' = AList.update k (Ref r) (resultCache s3) \<and>
     validationStorage s' = validationStorage s3 \<and> groupStroage s' = groupStroage s3 \<and>
     (\<forall>v. res = Inr v \<longrightarrow> v = Ref r)"
proof -
  define s4 where "s4 = s3\<lparr>resultCache := AList.update k (Ref r) (resultCache s3)\<rparr>"
  obtain nres s5 where n5: "notifyListeners env r listeners [0..<eachLength (heap s4) listeners] s4 = (nres, s5)"
    by (cases "notifyListeners env r listeners [0..<eachLength (heap s4) listeners] s4")
  from notify_shape[OF n5] obtain ev where
    t5: "trace s5 = trace s4 @ ev" and e5: "\<forall>e\<in>set ev. \<exists>l seen out. e = Called l [Ref r] seen out"
    and m5: "validationStorage s5 = validationStorage s4" "groupStroage s5 = groupStroage s4"
      "resultCache s5 = resultCache s4"
    by blast
  from callback_run[OF cb, of env s5] obtain cres s6 cbs where
    c6: "runCallback env callback s5 = (cres, s6)"
    and m6: "validationStorage s6 = validationStorage s5" "groupStroage s6 = groupStroage s5"
      "resultCache s6 = resultCache s5"
    and t6: "trace s6 = trace s5 @ cbs"
    and cbs: "cbs = [] \<or> (\<exists>c out. callback = Fn c \<and> cbs = [Called c [] [] out])"
    by blast
  have unfold: "finishValidation env k r listeners callback s3 =
     (case nres of
        Inl e \<Rightarrow> (Inl e, s5)
      | Inr _ \<Rightarrow> (case cres of Inl e \<Rightarrow> (Inl e, s6) | Inr _ \<Rightarrow> (Inr (Ref r), s6)))"
    using n5 c6
    by (simp add: finishValidation_def s4_def[symmetric] split: sum.splits)
  show ?thesis
  proof (cases nres)
    case (Inl e)
    then have "res = Inl e" "s' = s5" using f unfold by simp_all
    then show ?thesis using t5 e5 m5 by (intro exI[of _ ev]) (auto simp: s4_def)
  next
    case (Inr u)
    then have "s' = s6" "\<forall>v. res = Inr v \<longrightarrow> v = Ref r"
      using f unfold by (auto split: sum.splits)
    then show ?thesis using t5 e5 m5 m6 t6 cbs
      by (intro exI[of _ "ev @ cbs"]) (auto simp: s4_def)
  qed
qed


lemma getterCalls_simps [simp]:
  "getterCalls getter [] = []"
  "getterCalls getter (Called f args seen out # es) =
     (if Fn f = getter \<and> args = [] then Called f args seen out # getterCalls getter es
      else getterCalls getter es)"
  by (simp_all add: getterCalls_def)



















section \<open>Validation of one field\<close>







section \<open>Group resolution\<close>








section \<open>Registration\<close>

lemma memberFlag_setMember:
  "memberFlag (setMember env g k gs) g' k' \<longleftrightarrow>
     (g' = g \<and> k' = k \<and> (map_of gs g \<noteq> None \<or> inherited env g = None)) \<or> memberFlag gs g' k'"
  by (auto simp: memberFlag_def setMember_def update_conv' split: option.splits)

lemma own_setMember:
  "map_of (setMember env g k gs) g' \<noteq> None \<longleftrightarrow>
     map_of gs g' \<noteq> None \<or> (g' = g \<and> inherited env g = None)"
  by (auto simp: setMember_def update_conv' split: option.splits)

lemma memberFlag_foldl_setMember:
  "memberFlag (foldl (\<lambda>gs element. setMember env (key element) k gs) gs elems) g' k' \<longleftrightarrow>
     (g' \<in> key ` set elems \<and> k' = k \<and> (map_of gs g' \<noteq> None \<or> inherited env g' = None)) \<or>
     memberFlag gs g' k'"
proof (induction elems arbitrary: gs)
  case Nil
  show ?case by simp
next
  case (Cons e es)
  have o: "map_of (setMember env (key e) k gs) g' \<noteq> None \<or> inherited env g' = None \<longleftrightarrow>
           map_of gs g' \<noteq> None \<or> inherited env g' = None"
    using own_setMember[of env "key e" k gs g'] by auto
  show ?case
    using Cons.IH[of "setMember env (key e) k gs"] o memberFlag_setMember[of env "key e" k gs g' k']
    by auto
qed

lemma runCallback_maps:
  assumes "runCallback env callback s = (res, s')"
  shows "validationStorage s' = validationStorage s"
    "groupStroage s' = groupStroage s" "resultCache s' = resultCache s"
  using assms invoke_maps[of env callback "[]" s res s']
  by (auto simp: runCallback_def split: if_splits)






section \<open>Unregistered ids and ill-typed ids\<close>

text \<open>
  C7. The claim is that an operation on an unregistered id never throws. \<^verbatim>\<open>subscribe\<close>
  does: on the empty registry, \<^verbatim>\<open>subscribe(validator, "ghost", f3)\<close> prints the warning and
  then throws a \<^verbatim>\<open>TypeError\<close>, because line 237 destructures the undefined field record.
\<close>

theorem subscribe_unregistered_throws:
  "subscribe exampleEnv (Str ''ghost'') (Fn 3) Undefined (emptyRegistry 0) =
     (Inl (TypeError ''cannot destructure undefined''),
      (emptyRegistry 0)\<lparr>trace := [Warn (NotRegistered ''ghost'')]\<rparr>)"
  by code_simp

text \<open>
  C8. The claim is that a non-string id makes every operation throw a \<^verbatim>\<open>TypeError\<close> before
  any change. \<^verbatim>\<open>addGroup\<close> (like \<^verbatim>\<open>subscribe\<close>, \<^verbatim>\<open>updateGroups\<close> and \<^verbatim>\<open>removeGroup\<close>) never
  calls \<^verbatim>\<open>checkId\<close>: on the empty registry, \<^verbatim>\<open>addGroup(validator, null, "g")\<close> returns true
  and has written the flag \<^verbatim>\<open>"null": true\<close> into group \<^verbatim>\<open>g\<close>.
\<close>

theorem addGroup_null_id_mutates:
  "addGroup exampleEnv Null (Str ''g'') Undefined (emptyRegistry 0) =
     (Inr (Bool True),
      (emptyRegistry 0)\<lparr>groupStroage := [(''g'', [(''null'', True)])],
                        trace := [Warn (NotRegistered ''null'')]\<rparr>)"
  by code_simp

section \<open>The unsubscribe closure\<close>

lemma indexOf_absent: "v \<notin> set xs \<Longrightarrow> indexOf xs v = -1"
  by (induction xs) (auto simp: Let_def)



lemma spliceArray_minus_one: "xs \<noteq> [] \<Longrightarrow> spliceArray (-1) 1 xs = butlast xs"
proof -
  assume "xs \<noteq> []"
  then obtain ys y where xs: "xs = ys @ [y]" by (cases xs rule: rev_cases) auto
  have n: "nat (int (length ys) + 1) = Suc (length ys)" by simp
  show ?thesis by (simp add: spliceArray_def Let_def xs n)
qed

lemma spliceArray_absent: "v \<notin> set xs \<Longrightarrow> xs \<noteq> [] \<Longrightarrow> spliceArray (indexOf xs v) 1 xs = butlast xs"
  by (simp add: indexOf_absent spliceArray_minus_one)

lemma callUnsubscribe_heap:
  assumes "deref (heap s) va = Some (Obj props)" "deref (heap s) la = Some (Arr xs)"
  shows "callUnsubscribe (Unsubscribe la (Ref va) l) s =
     (Bool True, s\<lparr>heap := (heap s)[la := Arr (spliceArray (indexOf xs l) 1 xs),
                                    va := Obj (AList.update ''listeners'' (Ref la) props)]\<rparr>)"
proof -
  have ne: "va \<noteq> la" using assms by auto
  have lt: "va < length (heap s)" "la < length (heap s)"
    using assms by (auto dest: deref_Some_less)
  have "deref ((heap s)[la := Arr (spliceArray (indexOf xs l) 1 xs)]) va = Some (Obj props)"
    using assms ne lt by (simp add: deref_update)
  then show ?thesis using assms
    by (simp add: callUnsubscribe_def Let_def setProp_def assignProp_def)
qed

lemma getProp_RefD:
  "getProp h (Ref a) p = Ref b \<Longrightarrow> \<exists>props. deref h a = Some (Obj props) \<and> map_of props p = Some (Ref b)"
  by (auto simp: getProp_def split: option.splits obj.splits)



lemma ageTwoListeners_eq:
  "ageTwoListeners =
     \<lparr>validationStorage = [(''age'', 3)],
      groupStroage = [(''adult-checks'', [(''age'', True)])],
      resultCache = [],
      heap = [Arr [Str ''adult-checks''],
              Obj [(''id'', Str ''age''), (''getter'', Fn 0), (''groups'', Ref 0)],
              Arr [Fn 1],
              Obj [(''name'', Undefined), (''validationChain'', Ref 2), (''getter'', Fn 0),
                   (''listeners'', Ref 4)],
              Arr [Fn 3, Fn 5]],
      world = 17, trace = []\<rparr>"
  by code_simp

lemma ageUnsubscribedOnce_eq:
  "ageUnsubscribedOnce =
     \<lparr>validationStorage = [(''age'', 3)],
      groupStroage = [(''adult-checks'', [(''age'', True)])],
      resultCache = [],
      heap = [Arr [Str ''adult-checks''],
              Obj [(''id'', Str ''age''), (''getter'', Fn 0), (''groups'', Ref 0)],
              Arr [Fn 1],
              Obj [(''name'', Undefined), (''validationChain'', Ref 2), (''getter'', Fn 0),
                   (''listeners'', Ref 4)],
              Arr [Fn 5]],
      world = 17, trace = []\<rparr>"
  by code_simp





text \<open>
  C10, as amended. When the array and the record captured by the closure are the
  listener array and the record of the registered field, the listener is no longer in
  the listener sequence and the sequence is not empty, calling the closure again finds
  index -1 and removes the last entry of the sequence, which is another listener.
\<close>

theorem second_unsubscribe_removes_last:
  assumes "map_of (validationStorage s) k = Some va"
    and "getProp (heap s) (Ref va) ''listeners'' = Ref la"
    and "deref (heap s) la = Some (Arr xs)"
    and "l \<notin> set xs" and "xs \<noteq> []"
  shows "fieldListeners s k = Some xs \<and> indexOf xs l = -1 \<and>
     (\<exists>s'. callUnsubscribe (Unsubscribe la (Ref va) l) s = (Bool True, s') \<and>
            fieldListeners s' k = Some (butlast xs) \<and>
            last xs \<in> set xs \<and> last xs \<noteq> l \<and>
            length (butlast xs) = length xs - 1)"
proof -
  from getProp_RefD[OF assms(2)] obtain props where
    rec: "deref (heap s) va = Some (Obj props)"
    and l1: "map_of props ''listeners'' = Some (Ref la)"
    by blast
  have ne: "va \<noteq> la" using rec assms(3) by auto
  have lt: "va < length (heap s)" "la < length (heap s)"
    using rec assms(3) by (auto dest: deref_Some_less)
  have b: "fieldListeners s k = Some xs"
    using assms(1,2,3) by (simp add: fieldListeners_def eachElems_def)
  define s' where "s' = s\<lparr>heap := (heap s)[la := Arr (butlast xs),
                                    va := Obj (AList.update ''listeners'' (Ref la) props)]\<rparr>"
  have c: "callUnsubscribe (Unsubscribe la (Ref va) l) s = (Bool True, s')"
    using callUnsubscribe_heap[OF rec assms(3), of l] spliceArray_absent[OF assms(4,5)]
    by (simp add: s'_def)
  have a: "fieldListeners s' k = Some (butlast xs)"
    using assms(1) ne lt
    by (simp add: fieldListeners_def s'_def getProp_def eachElems_def deref_def update_conv')
  have "last xs \<in> set xs" "last xs \<noteq> l" using assms(4,5) by auto
  then show ?thesis using b c a indexOf_absent[OF assms(4)] by simp
qed

theorem second_unsubscribe_removes_last_witness:
  "fst (subscribe exampleEnv (Str ''age'') (Fn 3) Undefined ageRegistered) =
      Inr (ReturnedClosure (Unsubscribe 4 (Ref 3) (Fn 3))) \<and>
   fieldListeners ageTwoListeners ''age'' = Some [Fn 3, Fn 5] \<and>
   ageUnsubscribedOnce = snd (callUnsubscribe (Unsubscribe 4 (Ref 3) (Fn 3)) ageTwoListeners) \<and>
   map_of (validationStorage ageUnsubscribedOnce) ''age'' = Some 3 \<and>
   getProp (heap ageUnsubscribedOnce) (Ref 3) ''listeners'' = Ref 4 \<and>
   deref (heap ageUnsubscribedOnce) 4 = Some (Arr [Fn 5]) \<and>
   Fn 3 \<notin> set [Fn 5] \<and> [Fn 5] \<noteq> [] \<and>
   fieldListeners ageUnsubscribedOnce ''age'' = Some [Fn 5] \<and>
   indexOf [Fn 5] (Fn 3) = -1 \<and>
   (\<exists>s'. callUnsubscribe (Unsubscribe 4 (Ref 3) (Fn 3)) ageUnsubscribedOnce = (Bool True, s') \<and>
         fieldListeners s' ''age'' = Some [])"
proof -
  have 1: "fst (subscribe exampleEnv (Str ''age'') (Fn 3) Undefined ageRegistered) =
      Inr (ReturnedClosure (Unsubscribe 4 (Ref 3) (Fn 3)))"
    by code_simp
  have 2: "fieldListeners ageTwoListeners ''age'' = Some [Fn 3, Fn 5]"
    by (simp add: ageTwoListeners_eq fieldListeners_def getProp_def eachElems_def deref_def)
  have va: "map_of (validationStorage ageUnsubscribedOnce) ''age'' = Some 3"
    and li: "getProp (heap ageUnsubscribedOnce) (Ref 3) ''listeners'' = Ref 4"
    and la: "deref (heap ageUnsubscribedOnce) 4 = Some (Arr [Fn 5])"
    by (simp_all add: ageUnsubscribedOnce_eq deref_def getProp_def)
  have ni: "Fn 3 \<notin> set [Fn 5]" by simp
  have ne: "[Fn 5] \<noteq> ([]::val list)" by simp
  from second_unsubscribe_removes_last[OF va li la ni ne]
  show ?thesis using 1 2 va li la ni by (simp add: ageUnsubscribedOnce_def)
qed

text \<open>
  C10 as stated fails when the closure no longer holds the listener array of the field.
  The closure of function 3 is called once (function 3 is removed); after
  \<^verbatim>\<open>clearListeners\<close> functions 5 and 6 subscribe, so the listener sequence is not empty;
  the second call of the closure finds its own, now empty, array, removes nothing from it
  and writes it back into the record: both listeners are gone, not the last one. And
  when the field was deregistered and registered again in between, the second call
  changes the old array and the old record: the listener sequence of the field keeps all
  its entries.
\<close>

theorem second_unsubscribe_of_stale_closure:
  "fst (subscribe exampleEnv (Str ''age'') (Fn 3) Undefined ageRegistered) =
      Inr (ReturnedClosure (Unsubscribe 4 (Ref 3) (Fn 3))) \<and>
   fieldListeners (snd (callUnsubscribe (Unsubscribe 4 (Ref 3) (Fn 3)) ageSubscribed)) ''age'' =
     Some [] \<and>
   fieldListeners ageStaleClosure ''age'' = Some [Fn 5, Fn 6] \<and>
   fieldListeners (snd (callUnsubscribe (Unsubscribe 4 (Ref 3) (Fn 3)) ageStaleClosure)) ''age'' =
     Some [] \<and>
   fieldListeners ageUnsubscribedOnce ''age'' = Some [Fn 5] \<and>
   fieldListeners ageReregistered ''age'' = Some [Fn 5, Fn 6] \<and>
   fieldListeners (snd (callUnsubscribe (Unsubscribe 4 (Ref 3) (Fn 3)) ageReregistered)) ''age'' =
     Some [Fn 5, Fn 6]"
  by (intro conjI; code_simp)

section \<open>Reading the result cache\<close>

lemma warnWhenNotRegistered_frame [simp]:
  "heap (warnWhenNotRegistered env k s) = heap s"
  "validationStorage (warnWhenNotRegistered env k s) = validationStorage s"
  "groupStroage (warnWhenNotRegistered env k s) = groupStroage s"
  "resultCache (warnWhenNotRegistered env k s) = resultCache s"
  "world (warnWhenNotRegistered env k s) = world s"
  by (simp_all add: warnWhenNotRegistered_def warn_def)

lemma cacheEntry_warn [simp]: "cacheEntry (warnWhenNotRegistered env k s) k' = cacheEntry s k'"
  by (simp add: cacheEntry_def)





section \<open>Group membership and registration\<close>

lemma runCallback_frame:
  "runCallback env callback s = (res, s') \<Longrightarrow>
     validationStorage s' = validationStorage s \<and> groupStroage s' = groupStroage s"
  using runCallback_maps[of env callback s res s'] by simp

lemma collectResults_frame:
  "collectResults env dn getter r chain is s = (res, s') \<Longrightarrow>
     validationStorage s' = validationStorage s \<and> groupStroage s' = groupStroage s"
proof (induction "is" arbitrary: s)
  case Nil
  then show ?case by simp
next
  case (Cons i rest)
  define f where "f = eachElem (heap s) chain i"
  obtain r1 s1 where i1: "invoke env getter [] s = (r1, s1)" by (cases "invoke env getter [] s")
  note f1 = invoke_maps(1,2)[OF i1]
  show ?case
  proof (cases r1)
    case (Inl e)
    then show ?thesis using Cons.prems i1 f1 by (auto simp: Let_def)
  next
    case (Inr v)
    define s2 where "s2 = snd (alloc (Obj [(''name'', dn), (''value'', v)]) s1)"
    obtain r3 s3 where i3: "invoke env f [Ref (length (heap s1))] s2 = (r3, s3)"
      by (cases "invoke env f [Ref (length (heap s1))] s2")
    note f3 = invoke_maps(1,2)[OF i3]
    have f2: "validationStorage s2 = validationStorage s1" "groupStroage s2 = groupStroage s1"
      by (simp_all add: s2_def alloc_def)
    show ?thesis
    proof (cases r3)
      case (Inl e)
      then show ?thesis using Cons.prems i1 Inr i3 f1 f2 f3
        by (auto simp: alloc_def s2_def Let_def f_def)
    next
      case (Inr result)
      with Cons.prems i1 \<open>r1 = Inr v\<close> i3
      have "collectResults env dn getter r chain rest (push r result s3) = (res, s')"
        by (auto simp: alloc_def s2_def Let_def f_def)
      from Cons.IH[OF this] show ?thesis using f1 f2 f3 by simp
    qed
  qed
qed

lemma finishValidation_frame:
  assumes "checkCallback callback = None"
    and "finishValidation env k r listeners callback s = (res, s')"
  shows "validationStorage s' = validationStorage s \<and> groupStroage s' = groupStroage s"
  using finish_shape[OF assms] by blast

lemma firstError_two: "firstError [a, b] = None \<longleftrightarrow> a = None \<and> b = None"
  by (cases a; cases b) simp_all

lemma validateOne_frame:
  assumes "validateOne env idv callback s = (res, s')"
  shows "validationStorage s' = validationStorage s \<and> groupStroage s' = groupStroage s"
proof (cases "firstError [checkId idv, checkCallback callback]")
  case (Some e)
  then show ?thesis using assms by (simp add: validateOne_def)
next
  case None
  then have cb: "checkCallback callback = None" by (simp add: firstError_two)
  define k where "k = toPropertyKey env idv"
  define validation where "validation = storageEntry env s k"
  define s1 where "s1 = warnWhenNotRegistered env k s"
  show ?thesis
  proof (cases "isNil validation")
    case True
    then show ?thesis using assms None
      by (auto simp: validateOne_def Let_def k_def[symmetric] validation_def[symmetric])
  next
    case False
    define s2 where "s2 = s1\<lparr>heap := heap s1 @ [Arr []]\<rparr>"
    define vc where "vc = getProp (heap s1) validation ''validationChain''"
    define ph1 where "ph1 = (if isNil vc then (Inr (), s2)
        else collectResults env (getDisplayName (getProp (heap s1) validation ''name'') idv)
               (getProp (heap s1) validation ''getter'') (length (heap s1)) vc
               [0..<eachLength (heap s2) vc] s2)"
    obtain r3 s3 where p1: "ph1 = (r3, s3)" by (cases ph1)
    have f3: "validationStorage s3 = validationStorage s \<and> groupStroage s3 = groupStroage s"
    proof (cases "isNil vc")
      case True
      then show ?thesis using p1 by (auto simp: ph1_def s2_def s1_def)
    next
      case False
      then have "collectResults env (getDisplayName (getProp (heap s1) validation ''name'') idv)
               (getProp (heap s1) validation ''getter'') (length (heap s1)) vc
               [0..<eachLength (heap s2) vc] s2 = (r3, s3)"
        using p1 by (simp add: ph1_def)
      from collectResults_frame[OF this] show ?thesis
        by (simp add: s2_def s1_def)
    qed
    have unfold: "validateOne env idv callback s =
       (case ph1 of
          (Inl e, s3) \<Rightarrow> (Inl e, s3)
        | (Inr _, s3) \<Rightarrow>
            finishValidation env k (length (heap s1))
              (getProp (heap s1) validation ''listeners'') callback s3)"
      using None False
      by (simp add: validateOne_def Let_def k_def[symmetric] validation_def[symmetric]
          s1_def[symmetric] alloc_def ph1_def vc_def s2_def)
    show ?thesis
    proof (cases r3)
      case (Inl e)
      then show ?thesis using assms unfold p1 f3 by simp
    next
      case (Inr u)
      then have "finishValidation env k (length (heap s1))
              (getProp (heap s1) validation ''listeners'') callback s3 = (res, s')"
        using assms unfold p1 by simp
      from finishValidation_frame[OF cb this] f3 show ?thesis by simp
    qed
  qed
qed

lemma validateEach_frame:
  "validateEach env ra ids s = (res, s') \<Longrightarrow>
     validationStorage s' = validationStorage s \<and> groupStroage s' = groupStroage s"
proof (induction ids arbitrary: s)
  case Nil
  then show ?case by simp
next
  case (Cons k ks)
  obtain r1 s1 where v: "validateOne env (Str k) Null s = (r1, s1)"
    by (cases "validateOne env (Str k) Null s")
  note f = validateOne_frame[OF v]
  show ?case
  proof (cases r1)
    case (Inl e)
    then show ?thesis using Cons.prems v f by auto
  next
    case (Inr x)
    with Cons.prems v have "validateEach env ra ks (setProp ra k x s1) = (res, s')" by simp
    from Cons.IH[OF this] f show ?thesis by simp
  qed
qed

lemma validate_frame:
  assumes "validate env groups callback s = (res, s')"
  shows "validationStorage s' = validationStorage s \<and> groupStroage s' = groupStroage s"
proof (cases "firstError [checkGroups (heap s) groups, checkCallback callback]")
  case (Some e)
  then show ?thesis using assms by (simp add: validate_def)
next
  case None
  define s1 where "s1 = snd (alloc (Obj []) s)"
  obtain r2 s2 where e: "validateEach env (length (heap s)) (getIdsFromGroups env s groups) s1 = (r2, s2)"
    by (cases "validateEach env (length (heap s)) (getIdsFromGroups env s groups) s1")
  from validateEach_frame[OF e]
  have f2: "validationStorage s2 = validationStorage s \<and> groupStroage s2 = groupStroage s"
    by (simp add: s1_def alloc_def)
  obtain r3 s3 where c: "runCallback env callback s2 = (r3, s3)"
    by (cases "runCallback env callback s2")
  from runCallback_frame[OF c] f2
  have f3: "validationStorage s3 = validationStorage s \<and> groupStroage s3 = groupStroage s"
    by simp
  show ?thesis using assms None e c f2 f3
    by (auto simp: validate_def Let_def alloc_def s1_def split: sum.splits)
qed

lemma listenersOf_frame:
  "listenersOf validation s = Some (la, s') \<Longrightarrow>
     validationStorage s' = validationStorage s \<and> groupStroage s' = groupStroage s"
  by (auto simp: listenersOf_def alloc_def split: val.splits if_splits)

lemma subscribe_frame:
  assumes "subscribe env idv listener callback s = (res, s')"
  shows "validationStorage s' = validationStorage s \<and> groupStroage s' = groupStroage s"
proof -
  define k where "k = toPropertyKey env idv"
  define s1 where "s1 = warnWhenNotRegistered env k s"
  define validation where "validation = storageEntry env s1 k"
  have f1: "validationStorage s1 = validationStorage s \<and> groupStroage s1 = groupStroage s"
    by (simp add: s1_def)
  show ?thesis
  proof (cases "firstError [checkListener listener, checkCallback callback] = None \<and> \<not> isNil listener")
    case False
    then show ?thesis using assms by (auto simp: subscribe_def split: option.splits if_splits)
  next
    case True
    show ?thesis
    proof (cases "isNil validation")
      case N: True
      then show ?thesis using assms True f1
        by (auto simp: subscribe_def Let_def k_def[symmetric] s1_def[symmetric]
            validation_def[symmetric])
    next
      case N: False
      show ?thesis
      proof (cases "listenersOf validation s1")
        case None
        then show ?thesis using assms True N f1
          by (auto simp: subscribe_def Let_def k_def[symmetric] s1_def[symmetric]
              validation_def[symmetric])
      next
        case S: (Some p)
        obtain la s2 where p: "p = (la, s2)" by (cases p)
        define s4 where "s4 = assignProp validation ''listeners'' (Ref la) (push la listener s2)"
        from listenersOf_frame[OF S[unfolded p]] f1
        have f4: "validationStorage s4 = validationStorage s \<and> groupStroage s4 = groupStroage s"
          by (simp add: s4_def)
        obtain r5 s5 where c: "runCallback env callback s4 = (r5, s5)"
          by (cases "runCallback env callback s4")
        from runCallback_frame[OF c] f4
        have f5: "validationStorage s5 = validationStorage s \<and> groupStroage s5 = groupStroage s"
          by simp
        show ?thesis using assms True N S p c f5
          by (auto simp: subscribe_def Let_def k_def[symmetric] s1_def[symmetric]
              validation_def[symmetric] s4_def[symmetric] split: sum.splits)
      qed
    qed
  qed
qed

lemma callUnsubscribe_frame:
  "validationStorage (snd (callUnsubscribe u s)) = validationStorage s \<and>
   groupStroage (snd (callUnsubscribe u s)) = groupStroage s"
  by (simp add: callUnsubscribe_def Let_def split: option.splits obj.splits)

lemma clearListeners_frame:
  assumes "clearListeners env idv callback s = (res, s')"
  shows "validationStorage s' = validationStorage s \<and> groupStroage s' = groupStroage s"
proof -
  define k where "k = toPropertyKey env idv"
  define s1 where "s1 = warnWhenNotRegistered env k s"
  define validation where "validation = storageEntry env s1 k"
  have f1: "validationStorage s1 = validationStorage s \<and> groupStroage s1 = groupStroage s"
    by (simp add: s1_def)
  show ?thesis
  proof (cases "firstError [checkId idv, checkCallback callback] = None \<and> \<not> isNil validation")
    case False
    show ?thesis
    proof (cases "firstError [checkId idv, checkCallback callback]")
      case (Some e)
      then show ?thesis using assms by (simp add: clearListeners_def)
    next
      case None
      with False have "isNil validation" by simp
      then have "s' = s1" using assms None
        by (simp add: clearListeners_def Let_def k_def[symmetric] s1_def[symmetric]
            validation_def[symmetric])
      then show ?thesis using f1 by simp
    qed
  next
    case True
    define s3 where "s3 = assignProp validation ''listeners'' (Ref (length (heap s1)))
                            (snd (alloc (Arr []) s1))"
    have f3: "validationStorage s3 = validationStorage s \<and> groupStroage s3 = groupStroage s"
      by (simp add: s3_def alloc_def s1_def)
    obtain r4 s4 where c: "runCallback env callback s3 = (r4, s4)"
      by (cases "runCallback env callback s3")
    from runCallback_frame[OF c] f3
    have f4: "validationStorage s4 = validationStorage s \<and> groupStroage s4 = groupStroage s"
      by simp
    show ?thesis using assms True c f4
      by (auto simp: clearListeners_def Let_def k_def[symmetric] s1_def[symmetric]
          validation_def[symmetric] alloc_def s3_def split: sum.splits)
  qed
qed

lemma clone_frame:
  "clone v s = (v', s') \<Longrightarrow>
     validationStorage s' = validationStorage s \<and> groupStroage s' = groupStroage s"
  by (auto simp: clone_def alloc_def split: val.splits option.splits)

lemma getOneResult_frame:
  assumes "getOneResult env idv s = (res, s')"
  shows "validationStorage s' = validationStorage s \<and> groupStroage s' = groupStroage s"
proof (cases "checkId idv")
  case (Some e)
  then show ?thesis using assms by (simp add: getOneResult_def)
next
  case None
  define s1 where "s1 = warnWhenNotRegistered env (toPropertyKey env idv) s"
  obtain v s2 where c: "clone (cacheEntry s1 (toPropertyKey env idv)) s1 = (v, s2)"
    by (cases "clone (cacheEntry s1 (toPropertyKey env idv)) s1")
  from clone_frame[OF c] show ?thesis using assms None c
    by (auto simp: getOneResult_def Let_def s1_def)
qed

lemma getEach_frame:
  "getEach env ra ids s = (res, s') \<Longrightarrow>
     validationStorage s' = validationStorage s \<and> groupStroage s' = groupStroage s"
proof (induction ids arbitrary: s)
  case Nil
  then show ?case by simp
next
  case (Cons k ks)
  obtain r1 s1 where v: "getOneResult env (Str k) s = (r1, s1)"
    by (cases "getOneResult env (Str k) s")
  note f = getOneResult_frame[OF v]
  show ?case
  proof (cases r1)
    case (Inl e)
    then show ?thesis using Cons.prems v f by auto
  next
    case (Inr x)
    with Cons.prems v have "getEach env ra ks (setProp ra k x s1) = (res, s')" by simp
    from Cons.IH[OF this] f show ?thesis by simp
  qed
qed

lemma getResults_frame:
  assumes "getResults env groups s = (res, s')"
  shows "validationStorage s' = validationStorage s \<and> groupStroage s' = groupStroage s"
proof (cases "checkGroups (heap s) groups")
  case (Some e)
  then show ?thesis using assms by (simp add: getResults_def)
next
  case None
  obtain r2 s2 where e: "getEach env (length (heap s)) (getIdsFromGroups env s groups)
        (snd (alloc (Obj []) s)) = (r2, s2)"
    by (cases "getEach env (length (heap s)) (getIdsFromGroups env s groups) (snd (alloc (Obj []) s))")
  from getEach_frame[OF e] show ?thesis using assms None e
    by (auto simp: getResults_def Let_def alloc_def split: sum.splits)
qed

lemma clearOneResult_frame:
  "clearOneResult env idv s = (res, s') \<Longrightarrow>
     validationStorage s' = validationStorage s \<and> groupStroage s' = groupStroage s"
  by (auto simp: clearOneResult_def Let_def split: option.splits)

lemma clearEach_frame:
  "clearEach env ids s = (res, s') \<Longrightarrow>
     validationStorage s' = validationStorage s \<and> groupStroage s' = groupStroage s"
proof (induction ids arbitrary: s)
  case Nil
  then show ?case by simp
next
  case (Cons k ks)
  obtain r1 s1 where v: "clearOneResult env (Str k) s = (r1, s1)"
    by (cases "clearOneResult env (Str k) s")
  note f = clearOneResult_frame[OF v]
  show ?case
  proof (cases r1)
    case (Inl e)
    then show ?thesis using Cons.prems v f by auto
  next
    case (Inr x)
    with Cons.prems v have "clearEach env ks s1 = (res, s')" by simp
    from Cons.IH[OF this] f show ?thesis by simp
  qed
qed

lemma clearResults_frame:
  assumes "clearResults env groups s = (res, s')"
  shows "validationStorage s' = validationStorage s \<and> groupStroage s' = groupStroage s"
proof (cases "checkGroups (heap s) groups")
  case (Some e)
  then show ?thesis using assms by (simp add: clearResults_def)
next
  case None
  obtain r2 s2 where e: "clearEach env (getIdsFromGroups env s groups) s = (r2, s2)"
    by (cases "clearEach env (getIdsFromGroups env s groups) s")
  from clearEach_frame[OF e] show ?thesis using assms None e
    by (auto simp: clearResults_def split: sum.splits)
qed

lemma print_frame:
  "validationStorage (snd (printValidationInfo s)) = validationStorage s"
  "groupStroage (snd (printValidationInfo s)) = groupStroage s"
  "validationStorage (snd (printGroupInfo s)) = validationStorage s"
  "groupStroage (snd (printGroupInfo s)) = groupStroage s"
  "validationStorage (snd (printAllInfo s)) = validationStorage s"
  "groupStroage (snd (printAllInfo s)) = groupStroage s"
  by (simp_all add: printValidationInfo_def printGroupInfo_def printAllInfo_def split: sum.splits)

lemma invariant_frame:
  "validationStorage s' = validationStorage s \<and> groupStroage s' = groupStroage s \<Longrightarrow>
     membershipInvariant s \<Longrightarrow> membershipInvariant s'"
  by (simp add: membershipInvariant_def registered_def)

lemma register_invariant:
  assumes "membershipInvariant s"
  shows "membershipInvariant (snd (register env field validationChain callback s))"
proof -
  define idv where "idv = getProp (heap s) field ''id''"
  define groups where "groups = getProp (heap s) field ''groups''"
  define k where "k = toPropertyKey env idv"
  define s1 where "s1 = warnWhenIdHaveRegister env k s"
  have f1: "validationStorage s1 = validationStorage s \<and> groupStroage s1 = groupStroage s"
    by (simp add: s1_def warnWhenIdHaveRegister_def warn_def)
  show ?thesis
  proof (cases "checkFieldType field = None \<and>
      firstError [checkId idv, checkGetter (getProp (heap s) field ''getter''),
                  checkName (getProp (heap s) field ''name''), checkGroups (heap s) groups,
                  checkValidationChain (heap s) validationChain, checkCallback callback] = None")
    case False
    then show ?thesis using assms
      by (auto simp: register_def Let_def idv_def groups_def split: option.splits)
  next
    case True
    show ?thesis
    proof (cases "isNil (storageEntry env s1 k)")
      case R: False
      have "snd (register env field validationChain callback s) = s1"
        using True R
        by (simp add: register_def Let_def idv_def[symmetric] groups_def[symmetric]
            k_def[symmetric] s1_def[symmetric])
      then show ?thesis using invariant_frame[OF f1 assms] by simp
    next
      case R: True
      define rec where "rec = Obj [(''name'', getProp (heap s) field ''name''),
                                   (''validationChain'', validationChain),
                                   (''getter'', getProp (heap s) field ''getter'')]"
      define s3 where "s3 = (snd (alloc rec s1))\<lparr>validationStorage :=
                               AList.update k (length (heap s1)) (validationStorage s1)\<rparr>"
      define s4 where "s4 = (if isNil groups then s3
                             else s3\<lparr>groupStroage :=
                                    foldl (\<lambda>gs element. setMember env (toPropertyKey env element) k gs)
                                      (groupStroage s3) (eachElems (heap s3) groups)\<rparr>)"
      obtain r5 s5 where c: "runCallback env callback s4 = (r5, s5)"
        by (cases "runCallback env callback s4")
      have reg3: "\<And>k'. registered s3 k' \<longleftrightarrow> k' = k \<or> registered s k'"
        using f1 by (auto simp: s3_def registered_def update_conv' alloc_def)
      have gs3: "groupStroage s3 = groupStroage s"
        using f1 by (simp add: s3_def alloc_def)
      have vs4: "validationStorage s4 = validationStorage s3" by (simp add: s4_def)
      have inv4: "membershipInvariant s4"
        unfolding membershipInvariant_def
      proof (intro allI impI)
        fix g k' assume m: "memberFlag (groupStroage s4) g k'"
        have "k' = k \<or> memberFlag (groupStroage s) g k'"
          using m gs3 by (auto simp: s4_def memberFlag_foldl_setMember split: if_splits)
        then have "registered s3 k'" using reg3 assms by (auto simp: membershipInvariant_def)
        then show "registered s4 k'" using vs4 by (simp add: registered_def)
      qed
      have "snd (register env field validationChain callback s) = s5"
        using True R c
        by (auto simp: register_def Let_def idv_def[symmetric] groups_def[symmetric]
            k_def[symmetric] s1_def[symmetric] alloc_def rec_def[symmetric] s3_def s4_def
            split: sum.splits)
      moreover have "membershipInvariant s5"
        using runCallback_frame[OF c] inv4 invariant_frame by blast
      ultimately show ?thesis by simp
    qed
  qed
qed

lemma memberFlag_clear_all:
  "memberFlag (map (\<lambda>(g, element). (g, AList.update k False element)) gs) g' k' \<longleftrightarrow>
     memberFlag gs g' k' \<and> k' \<noteq> k"
proof -
  have "map_of (map (\<lambda>(g, element). (g, AList.update k False element)) gs) g' =
        map_option (AList.update k False) (map_of gs g')"
    by (induction gs) auto
  then show ?thesis
    by (auto simp: memberFlag_def update_conv' split: option.splits)
qed

lemma memberFlag_clear_one:
  "map_of gs g = Some m \<Longrightarrow>
   memberFlag (AList.update g (AList.update k False m) gs) g' k' \<longleftrightarrow>
     memberFlag gs g' k' \<and> \<not> (g' = g \<and> k' = k)"
  by (auto simp: memberFlag_def update_conv' split: option.splits)

lemma updateGroups_invariant:
  assumes "membershipInvariant s" "registered s (toPropertyKey env idv)"
  shows "membershipInvariant (snd (updateGroups env idv groups callback s))"
proof (cases "firstError [checkGroups (heap s) groups, checkCallback callback]")
  case (Some e)
  then show ?thesis using assms by (simp add: updateGroups_def)
next
  case None
  define k where "k = toPropertyKey env idv"
  define s2 where "s2 = (warnWhenNotRegistered env k s)\<lparr>groupStroage :=
       map (\<lambda>(g, element). (g, AList.update k False element)) (groupStroage s)\<rparr>"
  have vs2: "validationStorage s2 = validationStorage s" by (simp add: s2_def)
  have inv2: "membershipInvariant s2"
    using assms(1) by (auto simp: membershipInvariant_def s2_def memberFlag_clear_all registered_def)
  show ?thesis
  proof (cases "arrayElems (heap s2) groups")
    case N: None
    then have "snd (updateGroups env idv groups callback s) = s2"
      using None by (simp add: updateGroups_def Let_def k_def[symmetric] s2_def)
    then show ?thesis using inv2 by simp
  next
    case (Some xs)
    define s3 where "s3 = s2\<lparr>groupStroage :=
        foldl (\<lambda>gs element. setMember env (toPropertyKey env element) k gs) (groupStroage s2) xs\<rparr>"
    obtain r4 s4 where c: "runCallback env callback s3 = (r4, s4)"
      by (cases "runCallback env callback s3")
    have inv3: "membershipInvariant s3"
      using inv2 assms(2) vs2
      by (auto simp: membershipInvariant_def s3_def memberFlag_foldl_setMember registered_def k_def)
    have "snd (updateGroups env idv groups callback s) = s4"
      using None Some c
      by (auto simp: updateGroups_def Let_def k_def[symmetric] s2_def s3_def
          split: sum.splits)
    moreover have "membershipInvariant s4"
      using runCallback_frame[OF c] inv3 invariant_frame by blast
    ultimately show ?thesis by simp
  qed
qed

lemma addGroup_invariant:
  assumes "membershipInvariant s" "registered s (toPropertyKey env idv)"
  shows "membershipInvariant (snd (addGroup env idv groupName callback s))"
proof (cases "firstError [checkGroup groupName, checkCallback callback]")
  case (Some e)
  then show ?thesis using assms by (simp add: addGroup_def)
next
  case None
  define k where "k = toPropertyKey env idv"
  define s2 where "s2 = (warnWhenNotRegistered env k s)\<lparr>groupStroage :=
       setMember env (toPropertyKey env groupName) k (groupStroage s)\<rparr>"
  obtain r3 s3 where c: "runCallback env callback s2 = (r3, s3)"
    by (cases "runCallback env callback s2")
  have inv2: "membershipInvariant s2"
    using assms
    by (auto simp: membershipInvariant_def s2_def memberFlag_setMember registered_def k_def)
  have "snd (addGroup env idv groupName callback s) = s3"
    using None c
    by (auto simp: addGroup_def Let_def k_def[symmetric] s2_def split: sum.splits)
  moreover have "membershipInvariant s3"
    using runCallback_frame[OF c] inv2 invariant_frame by blast
  ultimately show ?thesis by simp
qed

lemma removeGroup_invariant:
  assumes "membershipInvariant s"
  shows "membershipInvariant (snd (removeGroup env idv groupName callback s))"
proof (cases "firstError [checkGroup groupName, checkCallback callback]")
  case (Some e)
  then show ?thesis using assms by (simp add: removeGroup_def)
next
  case None
  define k where "k = toPropertyKey env idv"
  define g where "g = toPropertyKey env groupName"
  define s1 where "s1 = warnWhenNotRegistered env k s"
  define s2 where "s2 = warnWhenIdNotInGroup k g s1"
  have f2: "validationStorage s2 = validationStorage s \<and> groupStroage s2 = groupStroage s"
    by (simp add: s2_def s1_def warnWhenIdNotInGroup_def warn_def split: option.splits)
  have f1: "validationStorage s1 = validationStorage s \<and> groupStroage s1 = groupStroage s"
    by (simp add: s1_def)
  show ?thesis
  proof (cases "isNil (storageEntry env s1 k)")
    case True
    then have "snd (removeGroup env idv groupName callback s) = s1"
      using None by (simp add: removeGroup_def Let_def k_def[symmetric] s1_def[symmetric])
    then show ?thesis using invariant_frame[OF f1 assms] by simp
  next
    case False
    show ?thesis
    proof (cases "map_of (groupStroage s) g")
      case N: None
      obtain r4 s4 where c: "runCallback env callback s2 = (r4, s4)"
        by (cases "runCallback env callback s2")
      have gs2: "map_of (groupStroage s2) g = None" using N f2 by simp
      have "snd (removeGroup env idv groupName callback s) = s2 \<or>
            snd (removeGroup env idv groupName callback s) = s4"
        using None False gs2 c
        by (auto simp: removeGroup_def Let_def k_def[symmetric] g_def[symmetric]
            s1_def[symmetric] s2_def[symmetric] split: option.splits sum.splits)
      moreover have "membershipInvariant s2" using invariant_frame[OF f2 assms] .
      moreover have "membershipInvariant s4"
        using runCallback_frame[OF c] \<open>membershipInvariant s2\<close> invariant_frame by blast
      ultimately show ?thesis by auto
    next
      case (Some groupInfo)
      define s3 where "s3 = s2\<lparr>groupStroage :=
            AList.update g (AList.update k False groupInfo) (groupStroage s2)\<rparr>"
      obtain r4 s4 where c: "runCallback env callback s3 = (r4, s4)"
        by (cases "runCallback env callback s3")
      have inv3: "membershipInvariant s3"
        using assms f2 Some
        by (auto simp: membershipInvariant_def s3_def memberFlag_clear_one registered_def)
      have gs2: "map_of (groupStroage s2) g = Some groupInfo" using Some f2 by simp
      have "snd (removeGroup env idv groupName callback s) = s4"
        using None False gs2 c
        by (auto simp: removeGroup_def Let_def k_def[symmetric] g_def[symmetric]
            s1_def[symmetric] s2_def[symmetric] s3_def[symmetric] split: sum.splits)
      moreover have "membershipInvariant s4"
        using runCallback_frame[OF c] inv3 invariant_frame by blast
      ultimately show ?thesis by simp
    qed
  qed
qed

lemma memberFlag_known_group: "memberFlag gs g k \<Longrightarrow> g \<in> set (map fst gs)"
  by (auto simp: memberFlag_def split: option.splits dest: map_of_SomeD intro: rev_image_eqI)

lemma deregister_invariant:
  assumes "membershipInvariant s"
    and "list_all (\<lambda>g. \<not> memberFlag (groupStroage s) g (toPropertyKey env idv))
           (map fst (groupStroage s))"
  shows "membershipInvariant (snd (deregister env idv callback s))"
proof (cases "firstError [checkId idv, checkCallback callback]")
  case (Some e)
  then show ?thesis using assms by (simp add: deregister_def)
next
  case None
  define k where "k = toPropertyKey env idv"
  define s1 where "s1 = warnWhenNotRegistered env k s"
  have f1: "validationStorage s1 = validationStorage s \<and> groupStroage s1 = groupStroage s"
    by (simp add: s1_def)
  have nf: "\<And>g. \<not> memberFlag (groupStroage s) g k"
    using assms(2) memberFlag_known_group[of "groupStroage s" _ k]
    by (auto simp: list_all_iff k_def)
  show ?thesis
  proof (cases "isNil (storageEntry env s k)")
    case True
    then have "snd (deregister env idv callback s) = s1"
      using None by (simp add: deregister_def Let_def k_def[symmetric] s1_def[symmetric])
    then show ?thesis using invariant_frame[OF f1 assms(1)] by simp
  next
    case False
    define s2 where "s2 = s1\<lparr>validationStorage := AList.delete k (validationStorage s1),
                             resultCache := AList.update k Undefined (resultCache s1)\<rparr>"
    obtain r3 s3 where c: "runCallback env callback s2 = (r3, s3)"
      by (cases "runCallback env callback s2")
    have inv2: "membershipInvariant s2"
      using assms(1) nf f1
      by (auto simp: membershipInvariant_def s2_def registered_def delete_conv')
    have "snd (deregister env idv callback s) = s3"
      using None False c
      by (auto simp: deregister_def Let_def k_def[symmetric] s1_def[symmetric] s2_def[symmetric]
          split: sum.splits)
    moreover have "membershipInvariant s3"
      using runCallback_frame[OF c] inv2 invariant_frame by blast
    ultimately show ?thesis by simp
  qed
qed

lemma perform_invariant:
  assumes "membershipInvariant s" "admissible env s operation"
  shows "membershipInvariant (perform env operation s)"
proof (cases operation)
  case (Register field validationChain callback)
  then show ?thesis using register_invariant[OF assms(1)] by simp
next
  case (Validate groups callback)
  then show ?thesis
    using validate_frame[of env groups callback s] invariant_frame[OF _ assms(1)]
    by (cases "validate env groups callback s") simp
next
  case (ValidateOne idv callback)
  then show ?thesis
    using validateOne_frame[of env idv callback s] invariant_frame[OF _ assms(1)]
    by (cases "validateOne env idv callback s") simp
next
  case (Subscribe idv listener callback)
  then show ?thesis
    using subscribe_frame[of env idv listener callback s] invariant_frame[OF _ assms(1)]
    by (cases "subscribe env idv listener callback s") simp
next
  case (CallUnsubscribe u)
  then show ?thesis using callUnsubscribe_frame[of u s] invariant_frame[OF _ assms(1)] by simp
next
  case (ClearListeners idv callback)
  then show ?thesis
    using clearListeners_frame[of env idv callback s] invariant_frame[OF _ assms(1)]
    by (cases "clearListeners env idv callback s") simp
next
  case (UpdateGroups idv groups callback)
  then show ?thesis using updateGroups_invariant[OF assms(1)] assms(2) by simp
next
  case (AddGroup idv groupName callback)
  then show ?thesis using addGroup_invariant[OF assms(1)] assms(2) by simp
next
  case (RemoveGroup idv groupName callback)
  then show ?thesis using removeGroup_invariant[OF assms(1)] by simp
next
  case (Deregister idv callback)
  then show ?thesis using deregister_invariant[OF assms(1)] assms(2) by simp
next
  case (GetOneResult idv)
  then show ?thesis
    using getOneResult_frame[of env idv s] invariant_frame[OF _ assms(1)]
    by (cases "getOneResult env idv s") simp
next
  case (GetResults groups)
  then show ?thesis
    using getResults_frame[of env groups s] invariant_frame[OF _ assms(1)]
    by (cases "getResults env groups s") simp
next
  case (ClearOneResult idv)
  then show ?thesis
    using clearOneResult_frame[of env idv s] invariant_frame[OF _ assms(1)]
    by (cases "clearOneResult env idv s") simp
next
  case (ClearResults groups)
  then show ?thesis
    using clearResults_frame[of env groups s] invariant_frame[OF _ assms(1)]
    by (cases "clearResults env groups s") simp
next
  case PrintValidationInfo
  then show ?thesis using invariant_frame[OF _ assms(1), of "snd (printValidationInfo s)"] by (simp add: print_frame)
next
  case PrintGroupInfo
  then show ?thesis using invariant_frame[OF _ assms(1), of "snd (printGroupInfo s)"] by (simp add: print_frame)
next
  case PrintAllInfo
  then show ?thesis using invariant_frame[OF _ assms(1), of "snd (printAllInfo s)"] by (simp add: print_frame)
next
  case (NewObject ob)
  then show ?thesis using assms(1)
    by (simp add: alloc_def membershipInvariant_def registered_def)
qed

lemma performAll_invariant:
  "membershipInvariant s \<Longrightarrow> admissibleAll env ops s \<Longrightarrow>
     membershipInvariant (performAll env ops s)"
  by (induction ops arbitrary: s) (auto intro: perform_invariant)

text \<open>
  C6, as amended. In every state reached from an empty registry by operations of the
  caller in which \<^verbatim>\<open>addGroup\<close> and \<^verbatim>\<open>updateGroups\<close> are applied to registered ids only, and
  \<^verbatim>\<open>deregister\<close> only to ids that no group flags true, every id whose flag is true in a
  group's map is registered. Operations may throw; the state they leave counts.
\<close>

theorem membership_invariant_of_admissible_runs:
  assumes "admissibleAll env ops (emptyRegistry w)"
  shows "membershipInvariant (performAll env ops (emptyRegistry w))"
proof -
  have "membershipInvariant (emptyRegistry w)"
    by (simp add: membershipInvariant_def emptyRegistry_def memberFlag_def)
  then show ?thesis using assms by (rule performAll_invariant)
qed

theorem membership_invariant_of_admissible_runs_witness:
  "admissibleAll exampleEnv (ageOperations @ [RemoveGroup (Str ''age'') (Str ''adult-checks'') Undefined,
        Deregister (Str ''age'') Undefined, PrintGroupInfo]) (emptyRegistry 17) \<and>
   membershipInvariant (performAll exampleEnv (ageOperations @
       [RemoveGroup (Str ''age'') (Str ''adult-checks'') Undefined,
        Deregister (Str ''age'') Undefined, PrintGroupInfo]) (emptyRegistry 17)) \<and>
   memberFlag (groupStroage (performAll exampleEnv ageOperations (emptyRegistry 17)))
      ''adult-checks'' ''age'' \<and>
   registered (performAll exampleEnv ageOperations (emptyRegistry 17)) ''age''"
proof -
  have a: "admissibleAll exampleEnv (ageOperations @ [RemoveGroup (Str ''age'') (Str ''adult-checks'') Undefined,
        Deregister (Str ''age'') Undefined, PrintGroupInfo]) (emptyRegistry 17)"
    by code_simp
  have m: "memberFlag (groupStroage (performAll exampleEnv ageOperations (emptyRegistry 17)))
      ''adult-checks'' ''age''"
    by code_simp
  have r: "registered (performAll exampleEnv ageOperations (emptyRegistry 17)) ''age''"
    by code_simp
  from membership_invariant_of_admissible_runs[OF a] a m r show ?thesis by blast
qed

text \<open>
  C6 as stated fails: \<^verbatim>\<open>deregister\<close> removes the field record and leaves the flags of the
  id in the group maps. After registering \<^verbatim>\<open>age\<close> in group \<^verbatim>\<open>adult-checks\<close> and
  deregistering it, the flag of \<^verbatim>\<open>age\<close> is still true and \<^verbatim>\<open>age\<close> is not registered.
  Also \<^verbatim>\<open>addGroup\<close> on an id that was never registered warns and then sets the flag.
\<close>

theorem membership_invariant_broken_by_deregister:
  "\<not> membershipInvariant
       (performAll exampleEnv (ageOperations @ [Deregister (Str ''age'') Undefined])
          (emptyRegistry 17)) \<and>
   \<not> membershipInvariant
       (performAll exampleEnv [AddGroup (Str ''ghost'') (Str ''g'') Undefined] (emptyRegistry 17))"
proof -
  have m: "memberFlag (groupStroage (performAll exampleEnv
             (ageOperations @ [Deregister (Str ''age'') Undefined]) (emptyRegistry 17)))
             ''adult-checks'' ''age''"
    by code_simp
  have r: "\<not> registered (performAll exampleEnv
             (ageOperations @ [Deregister (Str ''age'') Undefined]) (emptyRegistry 17)) ''age''"
    by code_simp
  have m': "memberFlag (groupStroage (performAll exampleEnv
             [AddGroup (Str ''ghost'') (Str ''g'') Undefined] (emptyRegistry 17))) ''g'' ''ghost''"
    by code_simp
  have r': "\<not> registered (performAll exampleEnv
             [AddGroup (Str ''ghost'') (Str ''g'') Undefined] (emptyRegistry 17)) ''ghost''"
    by code_simp
  show ?thesis using m r m' r' unfolding membershipInvariant_def by blast
qed

section \<open>The scenarios of the specification\<close>

text \<open>
  The age example, run: \<^verbatim>\<open>validate(["adult-checks"])\<close> returns the object
  \<^verbatim>\<open>{age: [false]}\<close> (at address 4, the result array at 5) and \<^verbatim>\<open>getResults\<close> then returns an
  object with a copy of that array; after \<^verbatim>\<open>clearResults\<close>, \<^verbatim>\<open>getOneResult("age")\<close> is
  undefined; after \<^verbatim>\<open>deregister("age")\<close>, \<^verbatim>\<open>validateOne("age")\<close> returns undefined and warns.
\<close>

lemma age_scenario_validate:
  "fst (validate exampleEnv (Ref 0) Undefined ageRegistered) = Inr (Ref 4)"
  "deepValue 2 (heap (snd (validate exampleEnv (Ref 0) Undefined ageRegistered))) (Ref 4) =
     ObjectOf [(''age'', ArrayOf [Leaf (Bool False)])]"
  "deepValue 2
     (heap (snd (getResults exampleEnv (Ref 0)
                   (snd (validate exampleEnv (Ref 0) Undefined ageRegistered)))))
     (case fst (getResults exampleEnv (Ref 0)
                  (snd (validate exampleEnv (Ref 0) Undefined ageRegistered))) of
        Inr v \<Rightarrow> v | Inl e \<Rightarrow> Undefined) =
     ObjectOf [(''age'', ArrayOf [Leaf (Bool False)])]"
  by code_simp+

lemma age_scenario_clear:
  "fst (getOneResult exampleEnv (Str ''age'')
          (snd (clearResults exampleEnv (Ref 0)
                  (snd (validate exampleEnv (Ref 0) Undefined ageRegistered))))) = Inr Undefined"
  by code_simp

lemma age_scenario_deregister:
  "fst (validateOne exampleEnv (Str ''age'') Undefined
          (snd (deregister exampleEnv (Str ''age'') Undefined ageRegistered))) = Inr Undefined"
  "trace (snd (validateOne exampleEnv (Str ''age'') Undefined
          (snd (deregister exampleEnv (Str ''age'') Undefined ageRegistered)))) =
     [Warn (NotRegistered ''age'')]"
  "fst (getOneResult exampleEnv (Str ''age'')
          (snd (deregister exampleEnv (Str ''age'') Undefined ageRegistered))) = Inr Undefined"
  by code_simp+

end
